theory Spec2Isabelle
  imports Main "HOL-Library.Char_ord" "HOL-Library.List_Lexorder" "HOL-Library.Multiset"
begin

section \<open>codeDump: the collector, the content transformer and the dump serializer\<close>

text \<open>
  The development follows \<^verbatim>\<open>pkg/codedump/codedump.go\<close>. The file \<^verbatim>\<open>main.go\<close> holds the same
  functions under lower-case names (\<^verbatim>\<open>collect\<close>, \<^verbatim>\<open>splitClean\<close>, \<^verbatim>\<open>stripPackageLine\<close>,
  \<^verbatim>\<open>absFrom\<close>) with the same bodies, and its \<^verbatim>\<open>main\<close> holds the body of \<^verbatim>\<open>Dump\<close>, ending the
  process where \<^verbatim>\<open>Dump\<close> returns an error; so every definition below is the model of both
  copies.

  Go strings and byte slices are byte sequences: they are modelled as \<^typ>\<open>string\<close>, a list of
  8-bit characters. Paths are those of a platform whose separator is the slash, where
  \<^verbatim>\<open>filepath.ToSlash\<close> returns its argument and a volume name is always empty.
\<close>

subsection \<open>Library functions of \<^verbatim>\<open>strings\<close> and \<^verbatim>\<open>bytes\<close>\<close>

abbreviation NL :: char where
  "NL \<equiv> CHR 0x0A"

text \<open>\<^verbatim>\<open>strings.HasPrefix(s, prefix)\<close>: \<^verbatim>\<open>len(s) >= len(prefix) && s[:len(prefix)] == prefix\<close>.\<close>

definition strings_HasPrefix :: "string \<Rightarrow> string \<Rightarrow> bool" where
  "strings_HasPrefix s p = (length s \<ge> length p \<and> take (length p) s = p)"

text \<open>\<^verbatim>\<open>strings.HasSuffix(s, suffix)\<close>:
  \<^verbatim>\<open>len(s) >= len(suffix) && s[len(s)-len(suffix):] == suffix\<close>.\<close>

definition strings_HasSuffix :: "string \<Rightarrow> string \<Rightarrow> bool" where
  "strings_HasSuffix s suf =
     (length s \<ge> length suf \<and> drop (length s - length suf) s = suf)"

text \<open>\<^verbatim>\<open>strings.Contains(s, substr)\<close>: some position of \<open>s\<close> starts with \<open>substr\<close>; the empty
  string is contained in every string.\<close>

fun strings_Contains :: "string \<Rightarrow> string \<Rightarrow> bool" where
  "strings_Contains [] sub = (sub = [])"
| "strings_Contains (x # xs) sub =
     (strings_HasPrefix (x # xs) sub \<or> strings_Contains xs sub)"

text \<open>\<^verbatim>\<open>strings.Split(s, sep)\<close> and \<^verbatim>\<open>bytes.Split(s, sep)\<close> for a separator of one byte, as the
  library computes them: find the next separator, cut before it, go on behind it; the rest
  that holds no separator is the last piece. The result is never empty.\<close>

function strings_Split :: "string \<Rightarrow> char \<Rightarrow> string list" where
  "strings_Split s c =
     (if c \<in> set s
      then takeWhile (\<lambda>x. x \<noteq> c) s # strings_Split (tl (dropWhile (\<lambda>x. x \<noteq> c) s)) c
      else [s])"
  by pat_completeness auto
termination
proof (relation "measure (\<lambda>(s, c). length s)")
  show "wf (measure (\<lambda>(s, c). length s))" by simp
next
  fix s :: string and c :: char
  assume "c \<in> set s"
  then have "dropWhile (\<lambda>x. x \<noteq> c) s \<noteq> []" by simp
  then have "length (tl (dropWhile (\<lambda>x. x \<noteq> c) s)) < length (dropWhile (\<lambda>x. x \<noteq> c) s)"
    by (cases "dropWhile (\<lambda>x. x \<noteq> c) s") simp_all
  also have "\<dots> \<le> length s" by (rule length_dropWhile_le)
  finally show "((tl (dropWhile (\<lambda>x. x \<noteq> c) s), c), (s, c)) \<in> measure (\<lambda>(s, c). length s)"
    by simp
qed

declare strings_Split.simps [simp del]

text \<open>\<^verbatim>\<open>bytes.Join(s, sep)\<close> and \<^verbatim>\<open>strings.Join\<close>: the pieces with \<open>sep\<close> between them.\<close>

fun bytes_Join :: "string list \<Rightarrow> string \<Rightarrow> string" where
  "bytes_Join [] sep = []"
| "bytes_Join [x] sep = x"
| "bytes_Join (x # y # ys) sep = x @ sep @ bytes_Join (y # ys) sep"

text \<open>
  \<^verbatim>\<open>strings.TrimSpace\<close> and \<^verbatim>\<open>bytes.TrimSpace\<close> cut the leading and the trailing white space, as
  Unicode defines it, from a UTF-8 byte sequence. The white-space code points are U+0009 to
  U+000D, U+0020, U+0085, U+00A0, U+1680, U+2000 to U+200A, U+2028, U+2029, U+202F, U+205F
  and U+3000; \<open>spaceRunes\<close> lists their UTF-8 encodings. A byte sequence that is not one of
  them decodes to a rune that is not white space, from the left and from the right.
\<close>

definition spaceRunes :: "string list" where
  "spaceRunes =
     [[CHR 0x09], [CHR 0x0A], [CHR 0x0B], [CHR 0x0C], [CHR 0x0D], [CHR 0x20],
      [CHR 0xC2, CHR 0x85], [CHR 0xC2, CHR 0xA0],
      [CHR 0xE1, CHR 0x9A, CHR 0x80],
      [CHR 0xE2, CHR 0x80, CHR 0x80], [CHR 0xE2, CHR 0x80, CHR 0x81],
      [CHR 0xE2, CHR 0x80, CHR 0x82], [CHR 0xE2, CHR 0x80, CHR 0x83],
      [CHR 0xE2, CHR 0x80, CHR 0x84], [CHR 0xE2, CHR 0x80, CHR 0x85],
      [CHR 0xE2, CHR 0x80, CHR 0x86], [CHR 0xE2, CHR 0x80, CHR 0x87],
      [CHR 0xE2, CHR 0x80, CHR 0x88], [CHR 0xE2, CHR 0x80, CHR 0x89],
      [CHR 0xE2, CHR 0x80, CHR 0x8A],
      [CHR 0xE2, CHR 0x80, CHR 0xA8], [CHR 0xE2, CHR 0x80, CHR 0xA9],
      [CHR 0xE2, CHR 0x80, CHR 0xAF],
      [CHR 0xE2, CHR 0x81, CHR 0x9F],
      [CHR 0xE3, CHR 0x80, CHR 0x80]]"

function trimLeftSpace :: "string \<Rightarrow> string" where
  "trimLeftSpace s =
     (case find (\<lambda>e. strings_HasPrefix s e) spaceRunes of
        None \<Rightarrow> s
      | Some e \<Rightarrow> trimLeftSpace (drop (length e) s))"
  by pat_completeness auto
termination
proof (relation "measure length")
  show "wf (measure length)" by simp
next
  fix s e :: string
  assume "find (\<lambda>e. strings_HasPrefix s e) spaceRunes = Some e"
  then have "e \<in> set spaceRunes" and "strings_HasPrefix s e"
    by (auto simp: find_Some_iff)
  then have "e \<noteq> []" and "length e \<le> length s"
    by (auto simp: spaceRunes_def strings_HasPrefix_def)
  then show "(drop (length e) s, s) \<in> measure length" by (cases e) auto
qed

function trimRightSpace :: "string \<Rightarrow> string" where
  "trimRightSpace s =
     (case find (\<lambda>e. strings_HasSuffix s e) spaceRunes of
        None \<Rightarrow> s
      | Some e \<Rightarrow> trimRightSpace (take (length s - length e) s))"
  by pat_completeness auto
termination
proof (relation "measure length")
  show "wf (measure length)" by simp
next
  fix s e :: string
  assume "find (\<lambda>e. strings_HasSuffix s e) spaceRunes = Some e"
  then have "e \<in> set spaceRunes" and "strings_HasSuffix s e"
    by (auto simp: find_Some_iff)
  then have "e \<noteq> []" and "length e \<le> length s"
    by (auto simp: spaceRunes_def strings_HasSuffix_def)
  then show "(take (length s - length e) s, s) \<in> measure length" by (cases e) auto
qed

declare trimLeftSpace.simps [simp del] trimRightSpace.simps [simp del]

definition strings_TrimSpace :: "string \<Rightarrow> string" where
  "strings_TrimSpace s = trimRightSpace (trimLeftSpace s)"

subsection \<open>The content transformer\<close>

text \<open>
  \<^verbatim>\<open>StripPackageLine\<close>: the lines of \<open>src\<close> are visited in order; \<open>skipped\<close> says whether a
  line was left out already, \<open>out\<close> collects the lines kept.
\<close>

definition isPackageLine :: "string \<Rightarrow> bool" where
  "isPackageLine ln = strings_HasPrefix (strings_TrimSpace ln) ''package ''"

fun stripLoop :: "bool \<Rightarrow> string list \<Rightarrow> string list \<Rightarrow> string list" where
  "stripLoop skipped out [] = out"
| "stripLoop skipped out (ln # lines) =
     (if \<not> skipped \<and> isPackageLine ln
      then stripLoop True out lines
      else stripLoop skipped (out @ [ln]) lines)"

definition StripPackageLine :: "string \<Rightarrow> string" where
  "StripPackageLine src = bytes_Join (stripLoop False [] (strings_Split src NL)) [NL]"


subsection \<open>Library functions of \<^verbatim>\<open>path/filepath\<close>\<close>

definition filepath_ToSlash :: "string \<Rightarrow> string" where
  "filepath_ToSlash path = path"

definition filepath_IsAbs :: "string \<Rightarrow> bool" where
  "filepath_IsAbs path = strings_HasPrefix path ''/''"

text \<open>\<^verbatim>\<open>filepath.Base\<close>: the last element of the path, after the trailing slashes are cut;
  \<^verbatim>\<open>"."\<close> for the empty path and \<^verbatim>\<open>"/"\<close> for a path of slashes only.\<close>

definition filepath_Base :: "string \<Rightarrow> string" where
  "filepath_Base path =
     (if path = [] then ''.''
      else let p = rev (dropWhile (\<lambda>c. c = CHR ''/'') (rev path));
               e = rev (takeWhile (\<lambda>c. c \<noteq> CHR ''/'') (rev p))
           in if e = [] then ''/'' else e)"

text \<open>
  \<^verbatim>\<open>filepath.Clean\<close>, as the library computes it: \<open>out\<close> is the buffer written so far,
  \<open>dotdot\<close> the index in it where a \<^verbatim>\<open>..\<close> element must stop, and the last argument of
  \<open>cleanLoop\<close> the part of the path still to read. \<open>backtrack\<close> is the inner loop that moves
  the write index back to the last slash.
\<close>

function backtrack :: "string \<Rightarrow> nat \<Rightarrow> nat \<Rightarrow> nat" where
  "backtrack buf dotdot w =
     (if w > dotdot \<and> buf ! w \<noteq> CHR ''/'' then backtrack buf dotdot (w - 1) else w)"
  by pat_completeness auto
termination
  by (relation "measure (\<lambda>(buf, dotdot, w). w)") auto

declare backtrack.simps [simp del]

definition atEndOrSlash :: "string \<Rightarrow> bool" where
  "atEndOrSlash s = (case s of [] \<Rightarrow> True | c # _ \<Rightarrow> c = CHR ''/'')"

function cleanLoop :: "bool \<Rightarrow> string \<Rightarrow> nat \<Rightarrow> string \<Rightarrow> string" where
  "cleanLoop rooted out dotdot [] = out"
| "cleanLoop rooted out dotdot (c # rest) =
     (if c = CHR ''/'' then cleanLoop rooted out dotdot rest
      else if c = CHR ''.'' \<and> atEndOrSlash rest then cleanLoop rooted out dotdot rest
      else if c = CHR ''.'' \<and> rest \<noteq> [] \<and> hd rest = CHR ''.'' \<and> atEndOrSlash (tl rest)
      then (if length out > dotdot
            then cleanLoop rooted (take (backtrack out dotdot (length out - 1)) out) dotdot (tl rest)
            else if \<not> rooted
            then cleanLoop rooted ((if length out > 0 then out @ ''/'' else out) @ ''..'')
                   (length ((if length out > 0 then out @ ''/'' else out) @ ''..'')) (tl rest)
            else cleanLoop rooted out dotdot (tl rest))
      else cleanLoop rooted
             ((if rooted \<and> length out \<noteq> 1 \<or> \<not> rooted \<and> length out \<noteq> 0 then out @ ''/'' else out)
                @ takeWhile (\<lambda>x. x \<noteq> CHR ''/'') (c # rest))
             dotdot (dropWhile (\<lambda>x. x \<noteq> CHR ''/'') (c # rest)))"
  by pat_completeness auto
termination
proof (relation "measure (\<lambda>(rooted, out, dotdot, s). length s)")
  fix c :: char and rest :: string
  assume "c \<noteq> CHR ''/''"
  then have "dropWhile (\<lambda>x. x \<noteq> CHR ''/'') (c # rest) = dropWhile (\<lambda>x. x \<noteq> CHR ''/'') rest"
    by simp
  then have "length (dropWhile (\<lambda>x. x \<noteq> CHR ''/'') (c # rest)) \<le> length rest"
    by (simp add: length_dropWhile_le)
  then show "\<And>rooted out dotdot. ((rooted,
        (if rooted \<and> length out \<noteq> 1 \<or> \<not> rooted \<and> length out \<noteq> 0 then out @ ''/'' else out)
          @ takeWhile (\<lambda>x. x \<noteq> CHR ''/'') (c # rest),
        dotdot, dropWhile (\<lambda>x. x \<noteq> CHR ''/'') (c # rest)),
       (rooted, out, dotdot, c # rest)) \<in> measure (\<lambda>(rooted, out, dotdot, s). length s)"
    by simp
qed auto

declare cleanLoop.simps [simp del]

definition filepath_Clean :: "string \<Rightarrow> string" where
  "filepath_Clean path =
     (if path = [] then ''.''
      else let out = (if hd path = CHR ''/''
                      then cleanLoop True ''/'' 1 (tl path)
                      else cleanLoop False [] 0 path)
           in if out = [] then ''.'' else out)"

text \<open>\<^verbatim>\<open>filepath.Join\<close> of two elements: from the first non-empty element on, the elements
  are joined with a slash and the result is cleaned.\<close>

definition filepath_Join :: "string \<Rightarrow> string \<Rightarrow> string" where
  "filepath_Join a b =
     (if a \<noteq> [] then filepath_Clean (a @ ''/'' @ b)
      else if b \<noteq> [] then filepath_Clean b
      else [])"

text \<open>\<^verbatim>\<open>filepath.Dir\<close>: the path up to and with its last slash, cleaned.\<close>

definition filepath_Dir :: "string \<Rightarrow> string" where
  "filepath_Dir path = filepath_Clean (rev (dropWhile (\<lambda>c. c \<noteq> CHR ''/'') (rev path)))"


subsection \<open>Errors and the environment of a run\<close>

datatype error = Error string

text \<open>
  What a file system holds at a path, as \<^verbatim>\<open>filepath.WalkDir\<close> sees it: an entry that is not
  a directory, or a directory with the entries \<^verbatim>\<open>os.ReadDir\<close> returns for it (by name) and
  the error \<^verbatim>\<open>os.ReadDir\<close> returns with them, if any.
\<close>

datatype node = File | Dir "(string \<times> node) list" "error option"

text \<open>
  The environment of a run: the results of the calls the program makes to the operating
  system, the runtime and the libraries that are not modelled here. \<open>Getwd\<close> is
  \<^verbatim>\<open>os.Getwd()\<close>; \<open>Lstat\<close> gives, for the root of a traversal, the error of \<^verbatim>\<open>os.Lstat\<close> or
  the tree found there; \<open>Stat\<close> is the size that \<^verbatim>\<open>os.Stat\<close> reports; \<open>ReadFile\<close> is
  \<^verbatim>\<open>os.ReadFile\<close> as \<^verbatim>\<open>Collect\<close> calls it and \<open>ReadFileDump\<close> is \<^verbatim>\<open>os.ReadFile\<close> as \<^verbatim>\<open>Dump\<close>
  calls it later for the same path (on an unchanged tree the two agree); \<open>Rel\<close> is
  \<^verbatim>\<open>filepath.Rel\<close>; \<open>Sum256hex\<close> is the hexadecimal SHA-256 digest of a byte sequence;
  \<open>Now\<close>, \<open>Version\<close> and \<open>GOROOT\<close> are the time stamp, \<^verbatim>\<open>runtime.Version()\<close> and
  \<^verbatim>\<open>build.Default.GOROOT\<close>; \<open>MkdirAll\<close> and \<open>WriteFile\<close> give the error of the two writing
  calls, if any.
\<close>

record world =
  Getwd :: "error + string"
  Lstat :: "string \<Rightarrow> error + node"
  Stat :: "string \<Rightarrow> error + int"
  ReadFile :: "string \<Rightarrow> error + string"
  ReadFileDump :: "string \<Rightarrow> error + string"
  Rel :: "string \<Rightarrow> string \<Rightarrow> error + string"
  Sum256hex :: "string \<Rightarrow> string"
  Now :: string
  Version :: string
  GOROOT :: string
  MkdirAll :: "string \<Rightarrow> error option"
  WriteFile :: "string \<Rightarrow> string \<Rightarrow> error option"

text \<open>\<^verbatim>\<open>wd, _ := os.Getwd()\<close>: the error is dropped, the directory is empty then.\<close>

definition getwd :: "world \<Rightarrow> string" where
  "getwd w = (case Getwd w of Inl e \<Rightarrow> [] | Inr wd \<Rightarrow> wd)"

definition filepath_Abs :: "world \<Rightarrow> string \<Rightarrow> error + string" where
  "filepath_Abs w path =
     (if filepath_IsAbs path then Inr (filepath_Clean path)
      else (case Getwd w of Inl e \<Rightarrow> Inl e | Inr wd \<Rightarrow> Inr (filepath_Join wd path)))"

subsection \<open>\<^verbatim>\<open>filepath.WalkDir\<close>\<close>

text \<open>
  The callback of a traversal takes the path, whether the entry is a directory, the error
  handed to it, and the state it works on; it returns \<^verbatim>\<open>nil\<close> (\<open>None\<close>),
  \<^verbatim>\<open>filepath.SkipDir\<close> or an error, and the new state. \<open>walkDir\<close> is the library's
  recursive walk and \<open>walkEntries\<close> its loop over the entries of a directory.
\<close>

datatype walkErr = SkipDir | Err error

function walkDir ::
    "(string \<Rightarrow> bool \<Rightarrow> error option \<Rightarrow> 's \<Rightarrow> walkErr option \<times> 's) \<Rightarrow> string \<Rightarrow> node \<Rightarrow> 's
      \<Rightarrow> walkErr option \<times> 's"
  and walkEntries ::
    "(string \<Rightarrow> bool \<Rightarrow> error option \<Rightarrow> 's \<Rightarrow> walkErr option \<times> 's) \<Rightarrow> string
      \<Rightarrow> (string \<times> node) list \<Rightarrow> 's \<Rightarrow> walkErr option \<times> 's"
where
  "walkDir fn path File s = fn path False None s"
| "walkDir fn path (Dir dirs rderr) s =
     (case fn path True None s of
        (Some SkipDir, s1) \<Rightarrow> (None, s1)
      | (Some (Err e), s1) \<Rightarrow> (Some (Err e), s1)
      | (None, s1) \<Rightarrow>
          (case rderr of
             None \<Rightarrow> walkEntries fn path dirs s1
           | Some e \<Rightarrow>
               (case fn path True (Some e) s1 of
                  (Some SkipDir, s2) \<Rightarrow> (None, s2)
                | (Some (Err e'), s2) \<Rightarrow> (Some (Err e'), s2)
                | (None, s2) \<Rightarrow> walkEntries fn path dirs s2)))"
| "walkEntries fn path [] s = (None, s)"
| "walkEntries fn path ((name, d1) # dirs) s =
     (case walkDir fn (filepath_Join path name) d1 s of
        (None, s1) \<Rightarrow> walkEntries fn path dirs s1
      | (Some SkipDir, s1) \<Rightarrow> (None, s1)
      | (Some (Err e), s1) \<Rightarrow> (Some (Err e), s1))"
  by pat_completeness auto
termination
  by (relation "measure (\<lambda>x. case x of
        Inl (fn, path, n, s) \<Rightarrow> 2 * size n
      | Inr (fn, path, dirs, s) \<Rightarrow> 2 * size_list (size_prod (\<lambda>_. 0) size) dirs + 1)") auto

text \<open>\<^verbatim>\<open>filepath.WalkDir(root, fn)\<close>: when \<^verbatim>\<open>os.Lstat(root)\<close> fails the callback is called
  once, with the error and no entry (it is handed \<open>False\<close> for the entry, which a callback
  that looks at the error first does not read); a \<^verbatim>\<open>SkipDir\<close> that reaches the top is
  no error.\<close>

definition WalkDir ::
    "world \<Rightarrow> string \<Rightarrow> (string \<Rightarrow> bool \<Rightarrow> error option \<Rightarrow> 's \<Rightarrow> walkErr option \<times> 's) \<Rightarrow> 's
      \<Rightarrow> error option \<times> 's" where
  "WalkDir w root fn s =
     (case (case Lstat w root of
              Inl e \<Rightarrow> fn root False (Some e) s
            | Inr info \<Rightarrow> walkDir fn root info s) of
        (None, s') \<Rightarrow> (None, s')
      | (Some SkipDir, s') \<Rightarrow> (None, s')
      | (Some (Err e), s') \<Rightarrow> (Some e, s'))"


subsection \<open>Configuration and items\<close>

record Config =
  Root :: string
  Target :: string
  Out :: string
  Ext :: string
  Include :: string
  Exclude :: string
  Pkg :: bool

definition DefaultConfig :: Config where
  "DefaultConfig =
     \<lparr>Root = ''.'', Target = ''./models'', Out = ''models_tree.txt'', Ext = ''.go'',
      Include = [], Exclude = ''_test.go,/.git/,/vendor/'', Pkg = False\<rparr>"

text \<open>The fields \<^verbatim>\<open>abs\<close> and \<^verbatim>\<open>size\<close> of the source are \<open>abs_path\<close> and \<open>size_bytes\<close> here.\<close>

record Item =
  rel :: string
  abs_path :: string
  sha :: string
  size_bytes :: int

subsection \<open>\<^verbatim>\<open>SplitClean\<close>, \<^verbatim>\<open>AbsFrom\<close> and \<^verbatim>\<open>Collect\<close>\<close>

fun splitCleanLoop :: "string list \<Rightarrow> string list \<Rightarrow> string list" where
  "splitCleanLoop out [] = out"
| "splitCleanLoop out (p # parts) =
     (if filepath_ToSlash (strings_TrimSpace p) \<noteq> []
      then splitCleanLoop (out @ [filepath_ToSlash (strings_TrimSpace p)]) parts
      else splitCleanLoop out parts)"

definition SplitClean :: "string \<Rightarrow> string list" where
  "SplitClean s = splitCleanLoop [] (strings_Split s CHR '','')"

definition AbsFrom :: "world \<Rightarrow> string \<Rightarrow> string \<Rightarrow> string" where
  "AbsFrom w base p =
     (if filepath_IsAbs p then p
      else (case filepath_Abs w (filepath_Join base p) of Inl e \<Rightarrow> [] | Inr ap \<Rightarrow> ap))"

text \<open>The loop \<^verbatim>\<open>for _, bad := range excl\<close> of the callback, which both branches share:
  whether some non-empty entry of the exclude list occurs in the path.\<close>

fun anyBad :: "string \<Rightarrow> string list \<Rightarrow> bool" where
  "anyBad pp [] = False"
| "anyBad pp (bad # excl) =
     (if bad \<noteq> [] \<and> strings_Contains pp bad then True else anyBad pp excl)"

text \<open>The callback that \<^verbatim>\<open>Collect\<close> hands to the traversal; the state is the slice \<open>out\<close>.\<close>

definition collectFn ::
    "world \<Rightarrow> Config \<Rightarrow> string list \<Rightarrow> string \<Rightarrow> string \<Rightarrow> bool \<Rightarrow> error option \<Rightarrow> Item list
      \<Rightarrow> walkErr option \<times> Item list" where
  "collectFn w c excl wd path isDir err out =
     (case err of
        Some e \<Rightarrow> (Some (Err e), out)
      | None \<Rightarrow>
          if isDir
          then (if anyBad (filepath_ToSlash path) excl then (Some SkipDir, out) else (None, out))
          else if \<not> strings_HasSuffix path (Ext c) then (None, out)
          else if filepath_Base path = Out c then (None, out)
          else if Include c \<noteq> [] \<and> \<not> strings_Contains (filepath_ToSlash path) (Include c)
          then (None, out)
          else if anyBad (filepath_ToSlash path) excl then (None, out)
          else (case Stat w path of
                  Inl e \<Rightarrow> (Some (Err e), out)
                | Inr st \<Rightarrow>
                    (case ReadFile w path of
                       Inl e \<Rightarrow> (Some (Err e), out)
                     | Inr data \<Rightarrow>
                         (None,
                          out @ [\<lparr>rel = filepath_ToSlash
                                         (case Rel w wd path of Inl e \<Rightarrow> [] | Inr r \<Rightarrow> r),
                                   abs_path = path,
                                   sha = Sum256hex w data,
                                   size_bytes = st\<rparr>]))))"

text \<open>
  \<^verbatim>\<open>sort.Slice(out, func(i, j int) bool { return out[i].rel < out[j].rel })\<close>: the items in
  ascending order of \<open>rel\<close>, strings being compared byte by byte. The library does not
  promise an order among items of equal \<open>rel\<close>; the model keeps them in the order they had.
\<close>

definition sort_Slice :: "Item list \<Rightarrow> Item list" where
  "sort_Slice out = sort_key rel out"

definition Collect :: "world \<Rightarrow> string \<Rightarrow> Config \<Rightarrow> error + Item list" where
  "Collect w targetAbs c =
     (case WalkDir w targetAbs (collectFn w c (SplitClean (Exclude c)) (getwd w)) [] of
        (Some e, out) \<Rightarrow> Inl e
      | (None, out) \<Rightarrow> Inr (sort_Slice out))"


subsection \<open>\<^verbatim>\<open>Dump\<close>\<close>

text \<open>The verb \<^verbatim>\<open>%d\<close> of \<^verbatim>\<open>fmt.Fprintf\<close>: an integer in decimal notation.\<close>

function decimal :: "nat \<Rightarrow> string" where
  "decimal n =
     (if n < 10 then [''0123456789'' ! n]
      else decimal (n div 10) @ [''0123456789'' ! (n mod 10)])"
  by pat_completeness auto
termination
  by (relation "measure id") auto

declare decimal.simps [simp del]

definition fmt_d :: "int \<Rightarrow> string" where
  "fmt_d i = (if i < 0 then CHR ''-'' # decimal (nat (- i)) else decimal (nat i))"

text \<open>The global header that \<^verbatim>\<open>Dump\<close> writes into the buffer first.\<close>

definition dumpHeader :: "world \<Rightarrow> string \<Rightarrow> string \<Rightarrow> string \<Rightarrow> string \<Rightarrow> string" where
  "dumpHeader w wd rootAbs targetAbs outAbs =
     ''// ===== CODEDUMP GENERATED ====='' @ [NL]
     @ ''// #pwd: '' @ wd @ [NL]
     @ ''// #generated_at: '' @ Now w @ [NL]
     @ ''// #go_version: '' @ Version w @ [NL]
     @ ''// #goroot: '' @ GOROOT w @ [NL]
     @ ''// #root: '' @ filepath_ToSlash rootAbs @ [NL]
     @ ''// #target: '' @ filepath_ToSlash targetAbs @ [NL]
     @ ''// #out: '' @ filepath_ToSlash outAbs @ [NL]
     @ ''// ================================='' @ [NL, NL]"

text \<open>
  The body of the loop over the items writes, for one item, the five header lines and the
  closing banner of the header (\<open>blockHeader\<close>), the content, a newline if the content is
  not empty and does not end in one (\<open>forcedNewline\<close>), and the end banner with the empty
  line (\<open>endBanner\<close>). The content is the data read, without its package line unless
  \<open>Pkg\<close> is set (\<open>contentOf\<close>).
\<close>

definition blockHeader :: "Item \<Rightarrow> string" where
  "blockHeader it =
     ''// ===== BEGIN FILE ====='' @ [NL]
     @ ''// #rel_path: '' @ rel it @ [NL]
     @ ''// #abs_path: '' @ filepath_ToSlash (abs_path it) @ [NL]
     @ ''// #size_bytes: '' @ fmt_d (size_bytes it) @ [NL]
     @ ''// #sha256: '' @ sha it @ [NL]
     @ ''// ======================'' @ [NL]"

definition contentOf :: "Config \<Rightarrow> string \<Rightarrow> string" where
  "contentOf c data = (if \<not> Pkg c then StripPackageLine data else data)"

definition forcedNewline :: "string \<Rightarrow> string" where
  "forcedNewline content = (if length content > 0 \<and> last content \<noteq> NL then [NL] else [])"

definition endBanner :: string where
  "endBanner = ''// ===== END FILE ====='' @ [NL, NL]"

definition fileBlock :: "Config \<Rightarrow> Item \<Rightarrow> string \<Rightarrow> string" where
  "fileBlock c it data =
     blockHeader it @ contentOf c data @ forcedNewline (contentOf c data) @ endBanner"

fun dumpLoop :: "world \<Rightarrow> Config \<Rightarrow> Item list \<Rightarrow> string \<Rightarrow> error + string" where
  "dumpLoop w c [] buf = Inr buf"
| "dumpLoop w c (it # items) buf =
     (case ReadFileDump w (abs_path it) of
        Inl e \<Rightarrow> Inl e
      | Inr data \<Rightarrow> dumpLoop w c items (buf @ fileBlock c it data))"

text \<open>
  \<^verbatim>\<open>Dump\<close> returns the output path and the number of files, or an error. The second
  component of the result lists the calls that change the file system, in the order they
  are made: \<^verbatim>\<open>os.MkdirAll\<close> on the directory of the output path, then \<^verbatim>\<open>os.WriteFile\<close> of
  the whole buffer to the output path.
\<close>

datatype effect = MkdirAllCall string | WriteFileCall string string

definition Dump :: "world \<Rightarrow> Config \<Rightarrow> (error + string \<times> int) \<times> effect list" where
  "Dump w c =
     (let wd = getwd w;
          rootAbs = AbsFrom w wd (Root c);
          targetAbs = AbsFrom w wd (Target c);
          outAbs = AbsFrom w rootAbs (Out c)
      in case Collect w targetAbs c of
           Inl e \<Rightarrow> (Inl e, [])
         | Inr items \<Rightarrow>
             (case dumpLoop w c items (dumpHeader w wd rootAbs targetAbs outAbs) of
                Inl e \<Rightarrow> (Inl e, [])
              | Inr buf \<Rightarrow>
                  (case MkdirAll w (filepath_Dir outAbs) of
                     Some e \<Rightarrow> (Inl e, [MkdirAllCall (filepath_Dir outAbs)])
                   | None \<Rightarrow>
                       (case WriteFile w outAbs buf of
                          Some e \<Rightarrow>
                            (Inl e, [MkdirAllCall (filepath_Dir outAbs), WriteFileCall outAbs buf])
                        | None \<Rightarrow>
                            (Inr (outAbs, int (length items)),
                             [MkdirAllCall (filepath_Dir outAbs), WriteFileCall outAbs buf])))))"


subsection \<open>Auxiliary definitions and concrete runs\<close>

text \<open>\<open>dropFirst P xs\<close> is \<open>xs\<close> without its first element that satisfies \<open>P\<close>. It is used
  to state what the loop of \<^verbatim>\<open>StripPackageLine\<close> computes.\<close>

fun dropFirst :: "('a \<Rightarrow> bool) \<Rightarrow> 'a list \<Rightarrow> 'a list" where
  "dropFirst P [] = []"
| "dropFirst P (x # xs) = (if P x then xs else x # dropFirst P xs)"

text \<open>
  \<open>walkedFiles excl path n\<close> lists the entries of the tree \<open>n\<close> at \<open>path\<close> that are no
  directories and do not lie in or below a directory whose path contains a non-empty entry
  of \<open>excl\<close>, each with the path that the walk hands to the callback, in the order of the
  walk. These are the files that a walk which meets no error hands to the callback.
  \<open>relOf w path\<close> is the \<open>rel\<close> that the callback gives to the item of \<open>path\<close>.
\<close>

function walkedFiles :: "string list \<Rightarrow> string \<Rightarrow> node \<Rightarrow> string list"
  and walkedEntries :: "string list \<Rightarrow> string \<Rightarrow> (string \<times> node) list \<Rightarrow> string list"
where
  "walkedFiles excl path File = [path]"
| "walkedFiles excl path (Dir dirs rderr) =
     (if anyBad (filepath_ToSlash path) excl then [] else walkedEntries excl path dirs)"
| "walkedEntries excl path [] = []"
| "walkedEntries excl path ((name, d1) # dirs) =
     walkedFiles excl (filepath_Join path name) d1 @ walkedEntries excl path dirs"
  by pat_completeness auto
termination
  by (relation "measure (\<lambda>x. case x of
        Inl (excl, path, n) \<Rightarrow> 2 * size n
      | Inr (excl, path, dirs) \<Rightarrow> 2 * size_list (size_prod (\<lambda>_. 0) size) dirs + 1)") auto

definition relOf :: "world \<Rightarrow> string \<Rightarrow> string" where
  "relOf w path =
     filepath_ToSlash (case Rel w (getwd w) path of Inl e \<Rightarrow> [] | Inr r \<Rightarrow> r)"

text \<open>
  The environments of the concrete runs below. For a clean rooted base and a clean target
  below it, \<^verbatim>\<open>filepath.Rel\<close> returns the target without the base and the slash after it;
  \<open>relBelow\<close> is \<^verbatim>\<open>filepath.Rel\<close> on such arguments, the only ones that occur in these runs.
  \<open>testWorld wd root tree st rd\<close> is an environment with working directory \<open>wd\<close>, the tree
  \<open>tree\<close> at the path \<open>root\<close> and nothing elsewhere, \<open>st\<close> for \<^verbatim>\<open>os.Stat\<close>, \<open>rd\<close> for every
  call of \<^verbatim>\<open>os.ReadFile\<close>, and writing calls that succeed. The digest of the test environments is a
  stand-in that only depends on the length of the data.
\<close>

definition relBelow :: "string \<Rightarrow> string \<Rightarrow> error + string" where
  "relBelow base targ =
     (if strings_HasPrefix targ (base @ ''/'') then Inr (drop (length base + 1) targ)
      else Inl (Error ''Rel: can't make path relative''))"

definition testWorld ::
    "string \<Rightarrow> string \<Rightarrow> node \<Rightarrow> (string \<Rightarrow> error + int) \<Rightarrow> (string \<Rightarrow> error + string) \<Rightarrow> world" where
  "testWorld wd root tree st rd =
     \<lparr>Getwd = Inr wd,
      Lstat = (\<lambda>p. if p = root then Inr tree
                   else Inl (Error ''lstat: no such file or directory'')),
      Stat = st,
      ReadFile = rd,
      ReadFileDump = rd,
      Rel = relBelow,
      Sum256hex = (\<lambda>data. ''sha256-of-'' @ decimal (length data) @ ''-bytes''),
      Now = ''2025-08-11T17:32:33-03:00'',
      Version = ''go1.24.3'',
      GOROOT = ''/usr/local/go'',
      MkdirAll = (\<lambda>p. None),
      WriteFile = (\<lambda>p b. None)\<rparr>"

definition goFile :: string where
  "goFile = ''package m'' @ [NL] @ ''var x = 1'' @ [NL]"

text \<open>The files \<^verbatim>\<open>a/b.go\<close>, \<^verbatim>\<open>a/a.go\<close> and \<^verbatim>\<open>z.go\<close>, found in this order, below \<^verbatim>\<open>/w\<close>.\<close>

definition orderWorld :: world where
  "orderWorld =
     testWorld ''/w'' ''/w''
       (Dir [(''a'', Dir [(''b.go'', File), (''a.go'', File)] None), (''z.go'', File)] None)
       (\<lambda>p. Inr 20) (\<lambda>p. Inr goFile)"

definition orderConfig :: Config where
  "orderConfig = DefaultConfig\<lparr>Target := ''.''\<rparr>"

text \<open>A directory \<^verbatim>\<open>a\<close> with \<^verbatim>\<open>x.go\<close> beside a file \<^verbatim>\<open>a.go\<close>, listed by name: the walk meets
  \<^verbatim>\<open>a/x.go\<close> before \<^verbatim>\<open>a.go\<close>.\<close>

definition siblingWorld :: world where
  "siblingWorld =
     testWorld ''/w'' ''/w''
       (Dir [(''a'', Dir [(''x.go'', File)] None), (''a.go'', File)] None)
       (\<lambda>p. Inr 20) (\<lambda>p. Inr goFile)"

text \<open>An earlier artifact \<^verbatim>\<open>out/dump.txt\<close> beside \<^verbatim>\<open>notes.txt\<close>, and a configuration that writes
  the artifact to \<^verbatim>\<open>out/dump.txt\<close> again.\<close>

definition selfWorld :: world where
  "selfWorld =
     testWorld ''/w'' ''/w''
       (Dir [(''notes.txt'', File), (''out'', Dir [(''dump.txt'', File)] None)] None)
       (\<lambda>p. Inr 6) (\<lambda>p. Inr (''hello'' @ [NL]))"

definition selfConfig :: Config where
  "selfConfig =
     \<lparr>Root = ''.'', Target = ''.'', Out = ''out/dump.txt'', Ext = ''.txt'',
      Include = [], Exclude = [], Pkg = False\<rparr>"

text \<open>A directory \<^verbatim>\<open>/t\<close> with the one file \<^verbatim>\<open>a.go\<close>, and a suffix that holds a slash.\<close>

definition slashWorld :: world where
  "slashWorld =
     testWorld ''/t'' ''/t'' (Dir [(''a.go'', File)] None) (\<lambda>p. Inr 20) (\<lambda>p. Inr goFile)"

definition slashConfig :: Config where
  "slashConfig = DefaultConfig\<lparr>Target := ''.'', Ext := ''/a.go''\<rparr>"

text \<open>Files without an extension, and an empty suffix.\<close>

definition plainWorld :: world where
  "plainWorld =
     testWorld ''/w'' ''/w'' (Dir [(''Makefile'', File), (''notes.txt'', File)] None)
       (\<lambda>p. Inr 6) (\<lambda>p. Inr (''hello'' @ [NL]))"

definition plainConfig :: Config where
  "plainConfig = DefaultConfig\<lparr>Target := ''.'', Ext := []\<rparr>"

text \<open>The default configuration run in a working directory below a directory \<^verbatim>\<open>vendor\<close>.\<close>

definition vendorWorld :: world where
  "vendorWorld =
     testWorld ''/home/u/vendor/proj'' ''/home/u/vendor/proj/models''
       (Dir [(''user.go'', File)] None) (\<lambda>p. Inr 20) (\<lambda>p. Inr goFile)"

text \<open>A directory \<^verbatim>\<open>lib\<close> that cannot be listed, below \<^verbatim>\<open>vendor\<close>, beside \<^verbatim>\<open>main.go\<close>.\<close>

definition prunedWorld :: world where
  "prunedWorld =
     testWorld ''/w'' ''/w''
       (Dir [(''main.go'', File),
             (''vendor'',
              Dir [(''lib'', Dir [(''x.go'', File)] (Some (Error ''readdirent: input/output error'')))]
                None)]
          None)
       (\<lambda>p. Inr 20) (\<lambda>p. Inr goFile)"

text \<open>A tree whose file \<^verbatim>\<open>a.go\<close> cannot be examined by \<^verbatim>\<open>os.Stat\<close>, and a tree whose root
  directory cannot be listed.\<close>

definition statWorld :: world where
  "statWorld =
     testWorld ''/w'' ''/w'' (Dir [(''a.go'', File)] None)
       (\<lambda>p. Inl (Error ''stat /w/a.go: permission denied'')) (\<lambda>p. Inr goFile)"

definition unlistedWorld :: world where
  "unlistedWorld =
     testWorld ''/w'' ''/w'' (Dir [] (Some (Error ''open /w: permission denied'')))
       (\<lambda>p. Inr 20) (\<lambda>p. Inr goFile)"

text \<open>The tree of \<open>orderWorld\<close>, whose files are gone when \<^verbatim>\<open>Dump\<close> reads them again.\<close>

definition vanishedWorld :: world where
  "vanishedWorld =
     orderWorld\<lparr>ReadFileDump := (\<lambda>p. Inl (Error ''open: no such file or directory''))\<rparr>"

text \<open>A tree in which \<^verbatim>\<open>b.go\<close> cannot be read, between two files that can.\<close>

definition brokenWorld :: world where
  "brokenWorld =
     testWorld ''/w'' ''/w''
       (Dir [(''a.go'', File), (''b.go'', File), (''c.go'', File)] None)
       (\<lambda>p. Inr 20)
       (\<lambda>p. if p = ''/w/b.go'' then Inl (Error ''open /w/b.go: permission denied'')
            else Inr goFile)"


text \<open>
  A run whose working directory cannot be determined, on the target \<^verbatim>\<open>/t\<close> given as a rooted
  path. \<^verbatim>\<open>filepath.Rel\<close> returns an error when one of its two paths is rooted and the other
  is not, as here, where the base is empty.
\<close>

definition lostWorld :: world where
  "lostWorld =
     (testWorld [] ''/t'' (Dir [(''f01.go'', File), (''f02.go'', File)] None)
        (\<lambda>p. Inr 20) (\<lambda>p. Inr goFile))
     \<lparr>Getwd := Inl (Error ''getwd: no such file or directory''),
      Rel := (\<lambda>base targ.
               if strings_HasPrefix base ''/'' \<noteq> strings_HasPrefix targ ''/''
               then Inl (Error ''Rel: can't make path relative'')
               else relBelow base targ)\<rparr>"

definition lostConfig :: Config where
  "lostConfig = DefaultConfig\<lparr>Target := ''/t''\<rparr>"

text \<open>The tree of \<open>siblingWorld\<close> with its two entries listed the other way round, and
  \<open>siblingWorld\<close> at a later time and under another runtime.\<close>

definition swappedWorld :: world where
  "swappedWorld =
     testWorld ''/w'' ''/w''
       (Dir [(''a.go'', File), (''a'', Dir [(''x.go'', File)] None)] None)
       (\<lambda>p. Inr 20) (\<lambda>p. Inr goFile)"

definition laterWorld :: world where
  "laterWorld = siblingWorld\<lparr>Now := ''2026-01-01T00:00:00Z'', Version := ''go1.25.0''\<rparr>"

section \<open>Lemmas\<close>

subsection \<open>Splitting and joining, the loop of \<^verbatim>\<open>StripPackageLine\<close>, and the traversal\<close>

lemma Split_nonempty: "strings_Split s c \<noteq> []"
  by (subst strings_Split.simps) simp

lemma Split_no_sep: "l \<in> set (strings_Split s c) \<Longrightarrow> c \<notin> set l"
proof (induction s c rule: strings_Split.induct)
  case (1 s c)
  show ?case
  proof (cases "c \<in> set s")
    case True
    with "1.prems" have "l = takeWhile (\<lambda>x. x \<noteq> c) s \<or> l \<in> set (strings_Split (tl (dropWhile (\<lambda>x. x \<noteq> c) s)) c)"
      by (subst (asm) strings_Split.simps) simp
    then show ?thesis
    proof
      assume "l = takeWhile (\<lambda>x. x \<noteq> c) s"
      then show ?thesis by (auto dest: set_takeWhileD)
    next
      assume "l \<in> set (strings_Split (tl (dropWhile (\<lambda>x. x \<noteq> c) s)) c)"
      with True "1.IH" show ?thesis by simp
    qed
  next
    case False
    with "1.prems" show ?thesis by (subst (asm) strings_Split.simps) simp
  qed
qed

lemma bytes_Join_Cons: "ys \<noteq> [] \<Longrightarrow> bytes_Join (x # ys) sep = x @ sep @ bytes_Join ys sep"
  by (cases ys) simp_all

lemma Join_Split: "bytes_Join (strings_Split s c) [c] = s"
proof (induction s c rule: strings_Split.induct)
  case (1 s c)
  show ?case
  proof (cases "c \<in> set s")
    case True
    then have ne: "dropWhile (\<lambda>x. x \<noteq> c) s \<noteq> []" by simp
    then have hd: "hd (dropWhile (\<lambda>x. x \<noteq> c) s) = c"
      using hd_dropWhile [of "\<lambda>x. x \<noteq> c" s] by simp
    have "bytes_Join (strings_Split s c) [c] =
        takeWhile (\<lambda>x. x \<noteq> c) s @ [c] @ bytes_Join (strings_Split (tl (dropWhile (\<lambda>x. x \<noteq> c) s)) c) [c]"
      using True by (subst strings_Split.simps) (simp add: bytes_Join_Cons Split_nonempty)
    also have "\<dots> = takeWhile (\<lambda>x. x \<noteq> c) s @ [c] @ tl (dropWhile (\<lambda>x. x \<noteq> c) s)"
      using True "1.IH" by simp
    also have "\<dots> = takeWhile (\<lambda>x. x \<noteq> c) s @ dropWhile (\<lambda>x. x \<noteq> c) s"
      using ne hd by (cases "dropWhile (\<lambda>x. x \<noteq> c) s") simp_all
    finally show ?thesis by simp
  next
    case False
    then show ?thesis by (subst strings_Split.simps) simp
  qed
qed

lemma Split_no_sep_id: "c \<notin> set s \<Longrightarrow> strings_Split s c = [s]"
  by (subst strings_Split.simps) simp

lemma Split_append_sep:
  "c \<notin> set l \<Longrightarrow> strings_Split (l @ c # r) c = l # strings_Split r c"
proof -
  assume l: "c \<notin> set l"
  then have t: "takeWhile (\<lambda>x. x \<noteq> c) (l @ c # r) = l"
    by (induction l) auto
  from l have d: "dropWhile (\<lambda>x. x \<noteq> c) (l @ c # r) = c # r"
    by (induction l) auto
  show ?thesis
    by (subst strings_Split.simps) (simp add: t d)
qed

lemma Split_Join:
  "ls \<noteq> [] \<Longrightarrow> \<forall>l\<in>set ls. c \<notin> set l \<Longrightarrow> strings_Split (bytes_Join ls [c]) c = ls"
proof (induction ls "[c]" rule: bytes_Join.induct)
  case 1
  then show ?case by simp
next
  case (2 x)
  then show ?case by (simp add: Split_no_sep_id)
next
  case (3 x y ys)
  then show ?case by (simp add: Split_append_sep)
qed

lemma stripLoop_eq:
  "stripLoop skipped out lines =
     out @ (if skipped then lines else dropFirst isPackageLine lines)"
  by (induction lines arbitrary: skipped out) auto

lemma StripPackageLine_eq:
  "StripPackageLine src = bytes_Join (dropFirst isPackageLine (strings_Split src NL)) [NL]"
  by (simp add: StripPackageLine_def stripLoop_eq)

lemma dropFirst_none: "\<forall>x\<in>set xs. \<not> P x \<Longrightarrow> dropFirst P xs = xs"
  by (induction xs) auto

lemma dropFirst_split:
  "\<forall>x\<in>set pre. \<not> P x \<Longrightarrow> P x \<Longrightarrow> dropFirst P (pre @ x # post) = pre @ post"
  by (induction pre) auto

lemma dropFirst_subset: "set (dropFirst P xs) \<subseteq> set xs"
  by (induction xs) auto

lemma dropFirst_filter:
  "length (filter P (dropFirst P xs)) = length (filter P xs) - 1"
  by (induction xs) auto

lemma trimLeftSpace_Nil: "trimLeftSpace [] = []"
proof -
  have "find (\<lambda>e. strings_HasPrefix [] e) spaceRunes = None"
    by (simp add: spaceRunes_def strings_HasPrefix_def)
  then show ?thesis by (subst trimLeftSpace.simps) simp
qed

lemma trimRightSpace_Nil: "trimRightSpace [] = []"
proof -
  have "find (\<lambda>e. strings_HasSuffix [] e) spaceRunes = None"
    by (simp add: spaceRunes_def strings_HasSuffix_def)
  then show ?thesis by (subst trimRightSpace.simps) simp
qed

lemma isPackageLine_nonempty: "isPackageLine ln \<Longrightarrow> ln \<noteq> []"
proof
  assume "isPackageLine ln" and "ln = []"
  then have "strings_HasPrefix [] ''package ''"
    by (simp add: isPackageLine_def strings_TrimSpace_def trimLeftSpace_Nil trimRightSpace_Nil)
  then show False by (simp add: strings_HasPrefix_def)
qed

lemma bytes_Join_inj:
  assumes "xs \<noteq> []" "ys \<noteq> []" "\<forall>l\<in>set xs. c \<notin> set l" "\<forall>l\<in>set ys. c \<notin> set l"
    and "bytes_Join xs [c] = bytes_Join ys [c]"
  shows "xs = ys"
  using assms Split_Join by metis

lemma dropFirst_fix_iff: "dropFirst P xs = xs \<longleftrightarrow> (\<forall>x\<in>set xs. \<not> P x)"
proof
  assume "dropFirst P xs = xs"
  then have "length (filter P xs) = length (filter P xs) - 1"
    using dropFirst_filter [of P xs] by simp
  then have "filter P xs = []"
    by (cases "filter P xs") simp_all
  then show "\<forall>x\<in>set xs. \<not> P x"
    by (simp add: filter_empty_conv)
qed (rule dropFirst_none)

lemma StripPackageLine_Nil: "StripPackageLine [] = []"
proof -
  have "strings_Split [] NL = [[]]" by (simp add: Split_no_sep_id)
  moreover have "\<not> isPackageLine []" using isPackageLine_nonempty by blast
  ultimately show ?thesis by (simp add: StripPackageLine_eq)
qed

lemma strip_idem_iff:
  "StripPackageLine (StripPackageLine b) = StripPackageLine b \<longleftrightarrow>
   length (filter isPackageLine (strings_Split b NL)) \<le> 1"
proof -
  define ls where "ls = strings_Split b NL"
  define ls' where "ls' = dropFirst isPackageLine ls"
  have nosep: "\<forall>l\<in>set ls. NL \<notin> set l"
    unfolding ls_def using Split_no_sep by blast
  have nosep': "\<forall>l\<in>set ls'. NL \<notin> set l"
    unfolding ls'_def using nosep dropFirst_subset [of isPackageLine ls] by blast
  have s1: "StripPackageLine b = bytes_Join ls' [NL]"
    unfolding ls_def ls'_def by (rule StripPackageLine_eq)
  have cnt: "length (filter isPackageLine ls') = length (filter isPackageLine ls) - 1"
    unfolding ls'_def by (rule dropFirst_filter)
  have goal: "StripPackageLine (bytes_Join ls' [NL]) = bytes_Join ls' [NL] \<longleftrightarrow>
      length (filter isPackageLine ls) \<le> 1"
  proof (cases "ls' = []")
    case True
    have "ls \<noteq> []" unfolding ls_def by (rule Split_nonempty)
    have "length (filter isPackageLine ls) \<le> 1"
      using cnt True by simp
    then show ?thesis using True by (simp add: StripPackageLine_Nil)
  next
    case False
    then have sp: "strings_Split (bytes_Join ls' [NL]) NL = ls'"
      using nosep' by (rule Split_Join)
    have s2: "StripPackageLine (bytes_Join ls' [NL]) = bytes_Join (dropFirst isPackageLine ls') [NL]"
      unfolding StripPackageLine_eq sp by (rule refl)
    show ?thesis
    proof
      assume "length (filter isPackageLine ls) \<le> 1"
      then have "filter isPackageLine ls' = []" using cnt by simp
      then have "dropFirst isPackageLine ls' = ls'"
        unfolding dropFirst_fix_iff filter_empty_conv by simp
      then show "StripPackageLine (bytes_Join ls' [NL]) = bytes_Join ls' [NL]"
        unfolding s2 by simp
    next
      assume "StripPackageLine (bytes_Join ls' [NL]) = bytes_Join ls' [NL]"
      then have eq: "bytes_Join (dropFirst isPackageLine ls') [NL] = bytes_Join ls' [NL]"
        unfolding s2 .
      have "dropFirst isPackageLine ls' = ls'"
      proof (cases "dropFirst isPackageLine ls' = []")
        case True
        then have "bytes_Join ls' [NL] = []" using eq by simp
        then have "strings_Split [] NL = ls'" using sp by simp
        then have "ls' = [[]]" by (simp add: Split_no_sep_id)
        moreover have "\<not> isPackageLine []" using isPackageLine_nonempty by blast
        ultimately show ?thesis by simp
      next
        case ne: False
        have "\<forall>l\<in>set (dropFirst isPackageLine ls'). NL \<notin> set l"
          using nosep' dropFirst_subset [of isPackageLine ls'] by blast
        then show ?thesis
          using bytes_Join_inj [OF ne False _ nosep' eq] by blast
      qed
      then have "filter isPackageLine ls' = []"
        unfolding dropFirst_fix_iff filter_empty_conv by simp
      then show "length (filter isPackageLine ls) \<le> 1"
        using cnt by simp
    qed
  qed
  show ?thesis
    using goal unfolding s1 ls_def .
qed



lemma walk_invariant:
  assumes step: "\<And>path d err s r s'. fn path d err s = (r, s') \<Longrightarrow> I s \<Longrightarrow> I s'"
  shows "walkDir fn path n s = (r, s') \<Longrightarrow> I s \<Longrightarrow> I s'"
    and "walkEntries fn path dirs s = (r, s') \<Longrightarrow> I s \<Longrightarrow> I s'"
  using step
proof (induction fn path n s and fn path dirs s arbitrary: r s' and r s'
    rule: walkDir_walkEntries.induct)
  case (1 fn path s)
  then show ?case by auto
next
  case (2 fn path dirs rderr s)
  show ?case
  proof (cases "fn path True None s")
    case (Pair x s1)
    with "2.prems" have I1: "I s1" by blast
    show ?thesis
    proof (cases x)
      case None
      show ?thesis
      proof (cases rderr)
        case N: None
        with None Pair "2.prems" have "walkEntries fn path dirs s1 = (r, s')" by simp
        with "2.IH"(1) [OF Pair [symmetric] None N _ I1] "2.prems"(3) show ?thesis by blast
      next
        case (Some e)
        show ?thesis
        proof (cases "fn path True (Some e) s1")
          case P2: (Pair y s2)
          with "2.prems" I1 have I2: "I s2" by blast
          show ?thesis
          proof (cases y)
            case N2: None
            with None Pair Some P2 "2.prems" have "walkEntries fn path dirs s2 = (r, s')" by simp
            with "2.IH"(2) [OF Pair [symmetric] None Some P2 [symmetric] N2 _ I2] "2.prems"(3)
            show ?thesis by blast
          next
            case S2: (Some z)
            with None Pair Some P2 "2.prems"(1) I2 show ?thesis
              by (cases z) auto
          qed
        qed
      qed
    next
      case (Some z)
      with Pair "2.prems"(1) I1 show ?thesis by (cases z) auto
    qed
  qed
next
  case (3 fn path s)
  then show ?case by simp
next
  case (4 fn path name d1 dirs s)
  show ?case
  proof (cases "walkDir fn (filepath_Join path name) d1 s")
    case (Pair x s1)
    have I1: "I s1" using "4.IH"(1) [OF Pair "4.prems"(2) "4.prems"(3)] .
    show ?thesis
    proof (cases x)
      case None
      with Pair "4.prems" have "walkEntries fn path dirs s1 = (r, s')" by simp
      with "4.IH"(2) [OF Pair [symmetric] None _ I1] "4.prems"(3) show ?thesis by blast
    next
      case (Some z)
      with Pair "4.prems"(1) I1 show ?thesis by (cases z) auto
    qed
  qed
qed



lemma HasPrefix_iff: "strings_HasPrefix s p \<longleftrightarrow> (\<exists>post. s = p @ post)"
proof
  assume "strings_HasPrefix s p"
  then have "s = p @ drop (length p) s"
    by (metis append_take_drop_id strings_HasPrefix_def)
  then show "\<exists>post. s = p @ post" ..
next
  assume "\<exists>post. s = p @ post"
  then show "strings_HasPrefix s p" by (auto simp: strings_HasPrefix_def)
qed

lemma HasSuffix_iff: "strings_HasSuffix s suf \<longleftrightarrow> (\<exists>pre. s = pre @ suf)"
proof
  assume "strings_HasSuffix s suf"
  then have "s = take (length s - length suf) s @ suf"
    by (metis append_take_drop_id strings_HasSuffix_def)
  then show "\<exists>pre. s = pre @ suf" ..
next
  assume "\<exists>pre. s = pre @ suf"
  then show "strings_HasSuffix s suf" by (auto simp: strings_HasSuffix_def)
qed

lemma Contains_iff: "strings_Contains s sub \<longleftrightarrow> (\<exists>pre post. s = pre @ sub @ post)"
proof (induction s)
  case Nil
  then show ?case by simp
next
  case (Cons x xs)
  show ?case
  proof
    assume "strings_Contains (x # xs) sub"
    then consider "strings_HasPrefix (x # xs) sub" | "strings_Contains xs sub" by auto
    then show "\<exists>pre post. x # xs = pre @ sub @ post"
    proof cases
      case 1
      then obtain post where "x # xs = sub @ post" by (auto simp: HasPrefix_iff)
      then have "x # xs = [] @ sub @ post" by simp
      then show ?thesis by blast
    next
      case 2
      with Cons.IH obtain pre post where "xs = pre @ sub @ post" by blast
      then have "x # xs = (x # pre) @ sub @ post" by simp
      then show ?thesis by blast
    qed
  next
    assume "\<exists>pre post. x # xs = pre @ sub @ post"
    then obtain pre post where eq: "x # xs = pre @ sub @ post" by blast
    show "strings_Contains (x # xs) sub"
    proof (cases pre)
      case Nil
      with eq have "strings_HasPrefix (x # xs) sub" by (auto simp: HasPrefix_iff)
      then show ?thesis by simp
    next
      case (Cons y ys)
      with eq have "xs = ys @ sub @ post" by simp
      with Cons.IH have "strings_Contains xs sub" by blast
      then show ?thesis by simp
    qed
  qed
qed

lemma anyBad_iff:
  "anyBad pp excl \<longleftrightarrow> (\<exists>bad\<in>set excl. bad \<noteq> [] \<and> strings_Contains pp bad)"
  by (induction excl) auto

lemma splitCleanLoop_subset:
  "set (splitCleanLoop out parts) \<subseteq> set out \<union> {p. p \<noteq> []}"
proof (induction parts arbitrary: out)
  case Nil
  then show ?case by simp
next
  case (Cons a parts)
  show ?case
    using Cons.IH [of out] Cons.IH [of "out @ [filepath_ToSlash (strings_TrimSpace a)]"]
    by auto
qed

lemma SplitClean_nonempty: "bad \<in> set (SplitClean s) \<Longrightarrow> bad \<noteq> []"
  using splitCleanLoop_subset [of "[]" "strings_Split s CHR '',''"]
  by (auto simp: SplitClean_def)

lemma takeWhile_all_append:
  "\<forall>x\<in>set xs. P x \<Longrightarrow> takeWhile P (xs @ ys) = xs @ takeWhile P ys"
  by (induction xs) auto

lemma walkEntries_no_skip: "fst (walkEntries fn path dirs s) \<noteq> Some SkipDir"
proof (induction dirs arbitrary: s)
  case Nil
  then show ?case by simp
next
  case (Cons a dirs)
  obtain name d1 where a: "a = (name, d1)" by (cases a)
  show ?case
  proof (cases "walkDir fn (filepath_Join path name) d1 s")
    case (Pair x s1)
    show ?thesis
    proof (cases x)
      case None
      with Pair a Cons.IH [of s1] show ?thesis by simp
    next
      case (Some z)
      with Pair a show ?thesis by (cases z) auto
    qed
  qed
qed

lemma HasSuffix_Base:
  assumes "CHR ''/'' \<notin> set e" and "strings_HasSuffix p e"
  shows "strings_HasSuffix (filepath_Base p) e"
proof (cases "e = []")
  case True
  then show ?thesis by (simp add: strings_HasSuffix_def)
next
  case False
  from assms(2) obtain q where p: "p = q @ e" by (auto simp: HasSuffix_iff)
  with False have pne: "p \<noteq> []" by simp
  have revp: "rev p = rev e @ rev q" by (simp add: p)
  from False have "rev e \<noteq> []" by simp
  then obtain a r where re: "rev e = a # r" by (cases "rev e") auto
  then have "a \<in> set e" by (metis list.set_intros(1) set_rev)
  with assms(1) have "a \<noteq> CHR ''/''" by auto
  then have d: "dropWhile (\<lambda>c. c = CHR ''/'') (rev p) = rev p"
    by (simp add: revp re)
  have "\<forall>x\<in>set (rev e). x \<noteq> CHR ''/''" using assms(1) by auto
  then have "takeWhile (\<lambda>c. c \<noteq> CHR ''/'') (rev e @ rev q)
      = rev e @ takeWhile (\<lambda>c. c \<noteq> CHR ''/'') (rev q)"
    by (rule takeWhile_all_append)
  then have tw: "takeWhile (\<lambda>c. c \<noteq> CHR ''/'') (rev p)
      = rev e @ takeWhile (\<lambda>c. c \<noteq> CHR ''/'') (rev q)"
    by (simp only: revp)
  have "filepath_Base p =
      (if rev (takeWhile (\<lambda>c. c \<noteq> CHR ''/'') (rev p)) = [] then ''/''
       else rev (takeWhile (\<lambda>c. c \<noteq> CHR ''/'') (rev p)))"
    using pne by (simp only: filepath_Base_def Let_def d rev_rev_ident if_False)
  also have "\<dots> = rev (takeWhile (\<lambda>c. c \<noteq> CHR ''/'') (rev q)) @ e"
    using False by (simp add: tw)
  finally show ?thesis by (auto simp: HasSuffix_iff)
qed

lemma collectFn_inv:
  assumes "collectFn w c excl wd path d err s = (r, s')"
    and "\<forall>it\<in>set s. strings_HasSuffix (abs_path it) (Ext c) \<and> filepath_Base (abs_path it) \<noteq> Out c
          \<and> (Include c = [] \<or> strings_Contains (filepath_ToSlash (abs_path it)) (Include c))
          \<and> \<not> anyBad (filepath_ToSlash (abs_path it)) excl"
  shows "\<forall>it\<in>set s'. strings_HasSuffix (abs_path it) (Ext c) \<and> filepath_Base (abs_path it) \<noteq> Out c
          \<and> (Include c = [] \<or> strings_Contains (filepath_ToSlash (abs_path it)) (Include c))
          \<and> \<not> anyBad (filepath_ToSlash (abs_path it)) excl"
  using assms
  by (auto simp: collectFn_def split: option.splits if_splits sum.splits)

lemma collectFn_file_no_skip:
  "fst (collectFn w c excl wd path False err s) \<noteq> Some SkipDir"
  by (auto simp: collectFn_def split: option.splits if_splits sum.splits)

lemma walkDir_collect_no_skip:
  "fst (walkDir (collectFn w c excl wd) path n s) \<noteq> Some SkipDir"
proof (cases n)
  case File
  then show ?thesis by (simp add: collectFn_file_no_skip)
next
  case (Dir dirs rderr)
  then show ?thesis
    using walkEntries_no_skip [of "collectFn w c excl wd" path dirs]
    by (auto split: prod.splits option.splits walkErr.splits)
qed

subsection \<open>The collector and the serializer\<close>

lemma WalkDir_invariant:
  assumes step: "\<And>path d err s r s'. fn path d err s = (r, s') \<Longrightarrow> I s \<Longrightarrow> I s'"
    and run: "WalkDir w root fn s = (r, s')" and init: "I s"
  shows "I s'"
proof (cases "Lstat w root")
  case (Inl e)
  obtain x s1 where f: "fn root False (Some e) s = (x, s1)" by (cases "fn root False (Some e) s")
  with step init have "I s1" by blast
  moreover from run Inl f have "s' = s1"
    by (auto simp: WalkDir_def split: option.splits walkErr.splits)
  ultimately show ?thesis by simp
next
  case (Inr info)
  obtain x s1 where f: "walkDir fn root info s = (x, s1)" by (cases "walkDir fn root info s")
  with walk_invariant(1) [of fn I root info s x s1] step init have "I s1" by blast
  moreover from run Inr f have "s' = s1"
    by (auto simp: WalkDir_def split: option.splits walkErr.splits)
  ultimately show ?thesis by simp
qed

lemma set_sort_Slice: "set (sort_Slice out) = set out"
  by (simp add: sort_Slice_def)

lemma mset_sort_Slice: "mset (sort_Slice out) = mset out"
  by (simp add: sort_Slice_def)

lemma sorted_sort_Slice: "sorted (map rel (sort_Slice out))"
  by (simp add: sort_Slice_def)

lemma sort_Slice_unique:
  assumes "mset out1 = mset out2" and "distinct (map rel out1)"
  shows "sort_Slice out1 = sort_Slice out2"
proof -
  have i: "inj_on rel (set out1)" using assms(2) by (simp add: distinct_map)
  have m: "mset out1 = mset (sort_key rel out2)" using assms(1) by simp
  have s: "sorted (map rel (sort_key rel out2))" by simp
  have "sort_key rel out1 = sort_key rel out2"
    by (rule sort_key_inj_key_eq [OF m i s])
  then show ?thesis by (simp add: sort_Slice_def)
qed

lemma Collect_accepted:
  assumes "Collect w targetAbs c = Inr items" and "it \<in> set items"
  shows "strings_HasSuffix (abs_path it) (Ext c) \<and> filepath_Base (abs_path it) \<noteq> Out c
          \<and> (Include c = [] \<or> strings_Contains (filepath_ToSlash (abs_path it)) (Include c))
          \<and> \<not> anyBad (filepath_ToSlash (abs_path it)) (SplitClean (Exclude c))"
proof -
  let ?fn = "collectFn w c (SplitClean (Exclude c)) (getwd w)"
  let ?I = "\<lambda>s. \<forall>it\<in>set s. strings_HasSuffix (abs_path it) (Ext c) \<and> filepath_Base (abs_path it) \<noteq> Out c
          \<and> (Include c = [] \<or> strings_Contains (filepath_ToSlash (abs_path it)) (Include c))
          \<and> \<not> anyBad (filepath_ToSlash (abs_path it)) (SplitClean (Exclude c))"
  obtain r out where run: "WalkDir w targetAbs ?fn [] = (r, out)"
    by (cases "WalkDir w targetAbs ?fn []")
  have step: "\<And>path d err s r s'. ?fn path d err s = (r, s') \<Longrightarrow> ?I s \<Longrightarrow> ?I s'"
    by (rule collectFn_inv)
  have "?I []" by simp
  with WalkDir_invariant [of ?fn ?I w targetAbs "[]" r out] step run have inv: "?I out"
    by blast
  from assms(1) run have "items = sort_Slice out"
    by (auto simp: Collect_def split: option.splits)
  with assms(2) have "it \<in> set out" by (simp add: set_sort_Slice)
  with inv show ?thesis by blast
qed

lemma Collect_sorted: "Collect w targetAbs c = Inr items \<Longrightarrow> sorted (map rel items)"
  by (auto simp: Collect_def sorted_sort_Slice split: prod.splits option.splits)

lemma anyBad_SplitClean_iff:
  "anyBad pp (SplitClean s) \<longleftrightarrow> (\<exists>bad\<in>set (SplitClean s). strings_Contains pp bad)"
  using SplitClean_nonempty [of _ s] by (auto simp: anyBad_iff)

lemma anyBad_SplitClean_I:
  "bad \<in> set (SplitClean s) \<Longrightarrow> pp = pre @ bad @ post \<Longrightarrow> anyBad pp (SplitClean s)"
  unfolding anyBad_SplitClean_iff Contains_iff by blast

lemma walkDir_pruned:
  "anyBad (filepath_ToSlash path) excl \<Longrightarrow>
   walkDir (collectFn w c excl wd) path (Dir dirs rderr) out = (None, out)"
  by (simp add: collectFn_def)

lemma Collect_pruned_root:
  assumes "Lstat w targetAbs = Inr (Dir dirs rderr)"
    and "anyBad (filepath_ToSlash targetAbs) (SplitClean (Exclude c))"
  shows "Collect w targetAbs c = Inr []"
proof -
  have "walkDir (collectFn w c (SplitClean (Exclude c)) (getwd w)) targetAbs (Dir dirs rderr) []
      = (None, [])"
    using assms(2) by (rule walkDir_pruned)
  with assms(1) show ?thesis
    by (simp add: Collect_def WalkDir_def sort_Slice_def del: walkDir.simps)
qed

lemma walkEntries_collect_append:
  "walkEntries (collectFn w c excl wd) parent before out = (None, out1) \<Longrightarrow>
   walkEntries (collectFn w c excl wd) parent (before @ rest) out
     = walkEntries (collectFn w c excl wd) parent rest out1"
proof (induction before arbitrary: out)
  case Nil
  then show ?case by simp
next
  case (Cons a before)
  obtain name d1 where a: "a = (name, d1)" by (cases a)
  obtain x s1 where w: "walkDir (collectFn w c excl wd) (filepath_Join parent name) d1 out = (x, s1)"
    by (cases "walkDir (collectFn w c excl wd) (filepath_Join parent name) d1 out")
  show ?case
  proof (cases x)
    case None
    with Cons.prems a w have "walkEntries (collectFn w c excl wd) parent before s1 = (None, out1)"
      by simp
    from Cons.IH [OF this] None a w show ?thesis by simp
  next
    case (Some z)
    show ?thesis
    proof (cases z)
      case SkipDir
      with Some w walkDir_collect_no_skip [of w c excl wd "filepath_Join parent name" d1 out]
      show ?thesis by simp
    next
      case (Err e)
      with Some Cons.prems a w show ?thesis by simp
    qed
  qed
qed

lemma Collect_Lstat_error: "Lstat w targetAbs = Inl e \<Longrightarrow> Collect w targetAbs c = Inl e"
  by (simp add: Collect_def WalkDir_def collectFn_def)

lemma Collect_walk_error:
  "Lstat w targetAbs = Inr n \<Longrightarrow>
   walkDir (collectFn w c (SplitClean (Exclude c)) (getwd w)) targetAbs n [] = (Some (Err e), out')
   \<Longrightarrow> Collect w targetAbs c = Inl e"
  by (simp add: Collect_def WalkDir_def)

lemma dumpLoop_blocks:
  "dumpLoop w c items buf = Inr buf' \<Longrightarrow>
   \<exists>datas. map (\<lambda>it. ReadFileDump w (abs_path it)) items = map Inr datas
      \<and> buf' = buf @ concat (map2 (fileBlock c) items datas)"
proof (induction items arbitrary: buf)
  case Nil
  then show ?case by simp
next
  case (Cons it items)
  from Cons.prems obtain data where d: "ReadFileDump w (abs_path it) = Inr data"
    and rest: "dumpLoop w c items (buf @ fileBlock c it data) = Inr buf'"
    by (auto split: sum.splits)
  from Cons.IH [OF rest] obtain datas where
    m: "map (\<lambda>it. ReadFileDump w (abs_path it)) items = map Inr datas"
    and b: "buf' = (buf @ fileBlock c it data) @ concat (map2 (fileBlock c) items datas)"
    by blast
  have "map (\<lambda>it. ReadFileDump w (abs_path it)) (it # items) = map Inr (data # datas)"
    using d m by simp
  moreover have "buf' = buf @ concat (map2 (fileBlock c) (it # items) (data # datas))"
    using b by simp
  ultimately show ?case by blast
qed

text \<open>Where the self-exclusion works: a file whose base name is \<open>Out\<close> itself is left out, and
  a name without a slash is its own base name.\<close>

lemma self_exclusion_by_name:
  "filepath_Base path = Out c \<Longrightarrow>
   walkDir (collectFn w c excl wd) path File out = (None, out)"
  by (simp add: collectFn_def)

lemma Base_of_plain_name:
  assumes "name \<noteq> []" and "CHR ''/'' \<notin> set name"
  shows "filepath_Base name = name"
proof -
  have all: "\<forall>x\<in>set (rev name). x \<noteq> CHR ''/''" using assms(2) by auto
  from assms(1) obtain a r where r: "rev name = a # r" by (cases "rev name") auto
  with all have "a \<noteq> CHR ''/''" by auto
  with r have d: "dropWhile (\<lambda>c. c = CHR ''/'') (rev name) = rev name" by simp
  from all have t: "takeWhile (\<lambda>c. c \<noteq> CHR ''/'') (rev name) = rev name"
    by (simp add: takeWhile_eq_all_conv)
  show ?thesis
    using assms(1) by (simp add: filepath_Base_def Let_def d t)
qed

subsection \<open>The files that the walk reaches\<close>

lemma collectFn_file_appends:
  "collectFn w c excl wd path False err s = (r, s') \<Longrightarrow>
   s' = s \<or> (\<exists>it. s' = s @ [it] \<and> abs_path it = path)"
  by (auto simp: collectFn_def split: option.splits if_splits sum.splits)

lemma walk_collect_paths:
  "walkDir (collectFn w c excl wd) path n s = (r, s') \<Longrightarrow> distinct (walkedFiles excl path n) \<Longrightarrow>
     \<exists>new. s' = s @ new \<and> distinct (map abs_path new)
        \<and> set (map abs_path new) \<subseteq> set (walkedFiles excl path n)"
  "walkEntries (collectFn w c excl wd) path dirs s = (r, s') \<Longrightarrow>
   distinct (walkedEntries excl path dirs) \<Longrightarrow>
     \<exists>new. s' = s @ new \<and> distinct (map abs_path new)
        \<and> set (map abs_path new) \<subseteq> set (walkedEntries excl path dirs)"
proof (induction excl path n and excl path dirs arbitrary: s r s' and s r s'
    rule: walkedFiles_walkedEntries.induct)
  case (1 excl path)
  then have "collectFn w c excl wd path False None s = (r, s')" by simp
  from collectFn_file_appends [OF this] show ?case by auto
next
  case (2 excl path dirs rderr)
  show ?case
  proof (cases "anyBad (filepath_ToSlash path) excl")
    case True
    then have "walkDir (collectFn w c excl wd) path (Dir dirs rderr) s = (None, s)"
      by (simp add: collectFn_def)
    with "2.prems"(1) show ?thesis by simp
  next
    case False
    then have f: "collectFn w c excl wd path True None s = (None, s)"
      by (simp add: collectFn_def)
    show ?thesis
    proof (cases rderr)
      case None
      with f "2.prems"(1) have "walkEntries (collectFn w c excl wd) path dirs s = (r, s')"
        by simp
      moreover from False "2.prems"(2) have "distinct (walkedEntries excl path dirs)" by simp
      ultimately show ?thesis using "2.IH" [OF False] False by simp
    next
      case (Some e)
      have "collectFn w c excl wd path True (Some e) s = (Some (Err e), s)"
        by (simp add: collectFn_def)
      with f Some "2.prems"(1) have "s' = s" by simp
      then show ?thesis by simp
    qed
  qed
next
  case (3 excl path)
  then show ?case by simp
next
  case (4 excl path name d1 dirs)
  obtain x s1 where w1: "walkDir (collectFn w c excl wd) (filepath_Join path name) d1 s = (x, s1)"
    by (cases "walkDir (collectFn w c excl wd) (filepath_Join path name) d1 s")
  from "4.prems"(2) have d1: "distinct (walkedFiles excl (filepath_Join path name) d1)"
    and d2: "distinct (walkedEntries excl path dirs)"
    and dj: "set (walkedFiles excl (filepath_Join path name) d1) \<inter> set (walkedEntries excl path dirs) = {}"
    by simp_all
  from "4.IH"(1) [OF w1 d1] obtain new1 where
    n1: "s1 = s @ new1" "distinct (map abs_path new1)"
      "set (map abs_path new1) \<subseteq> set (walkedFiles excl (filepath_Join path name) d1)"
    by blast
  show ?case
  proof (cases x)
    case None
    with w1 "4.prems"(1) have "walkEntries (collectFn w c excl wd) path dirs s1 = (r, s')" by simp
    from "4.IH"(2) [OF this d2] obtain new2 where
      n2: "s' = s1 @ new2" "distinct (map abs_path new2)"
        "set (map abs_path new2) \<subseteq> set (walkedEntries excl path dirs)"
      by blast
    from n1 n2 dj have "s' = s @ (new1 @ new2)" and "distinct (map abs_path (new1 @ new2))"
      and "set (map abs_path (new1 @ new2)) \<subseteq> set (walkedEntries excl path ((name, d1) # dirs))"
      by auto
    then show ?thesis by blast
  next
    case (Some z)
    with w1 "4.prems"(1) have "s' = s1" by (cases z) auto
    with n1 have "s' = s @ new1" and "distinct (map abs_path new1)"
      and "set (map abs_path new1) \<subseteq> set (walkedEntries excl path ((name, d1) # dirs))"
      by auto
    then show ?thesis by blast
  qed
qed

lemma collectFn_rel_inv:
  assumes "collectFn w c excl (getwd w) path d err s = (r, s')"
    and "\<forall>it\<in>set s. rel it = relOf w (abs_path it)"
  shows "\<forall>it\<in>set s'. rel it = relOf w (abs_path it)"
  using assms
  by (auto simp: collectFn_def relOf_def split: option.splits if_splits sum.splits)

lemma Collect_walk:
  assumes "Lstat w targetAbs = Inr tree" and "Collect w targetAbs c = Inr items"
  shows "\<exists>out. walkDir (collectFn w c (SplitClean (Exclude c)) (getwd w)) targetAbs tree []
            = (None, out) \<and> items = sort_Slice out"
proof -
  let ?fn = "collectFn w c (SplitClean (Exclude c)) (getwd w)"
  obtain x out where wk: "walkDir ?fn targetAbs tree [] = (x, out)"
    by (cases "walkDir ?fn targetAbs tree []")
  have ns: "x \<noteq> Some SkipDir"
    using walkDir_collect_no_skip [of w c "SplitClean (Exclude c)" "getwd w" targetAbs tree "[]"] wk
    by simp
  show ?thesis
  proof (cases x)
    case None
    with assms wk show ?thesis by (simp add: Collect_def WalkDir_def)
  next
    case (Some z)
    with ns obtain e where "z = Err e" by (cases z) auto
    with Some assms wk show ?thesis by (simp add: Collect_def WalkDir_def)
  qed
qed

lemma Collect_distinct_rel:
  assumes ls: "Lstat w targetAbs = Inr tree"
    and dr: "distinct (map (relOf w) (walkedFiles (SplitClean (Exclude c)) targetAbs tree))"
    and col: "Collect w targetAbs c = Inr items"
  shows "distinct (map rel items)"
proof -
  let ?excl = "SplitClean (Exclude c)"
  let ?fn = "collectFn w c ?excl (getwd w)"
  let ?files = "walkedFiles ?excl targetAbs tree"
  from Collect_walk [OF ls col] obtain out where
    wk: "walkDir ?fn targetAbs tree [] = (None, out)" and it: "items = sort_Slice out"
    by blast
  from dr have df: "distinct ?files" and inj: "inj_on (relOf w) (set ?files)"
    by (simp_all add: distinct_map)
  from walk_collect_paths(1) [OF wk df] have da: "distinct (map abs_path out)"
    and sub: "set (map abs_path out) \<subseteq> set ?files"
    by auto
  have "\<forall>it\<in>set out. rel it = relOf w (abs_path it)"
    using walk_invariant(1) [of ?fn "\<lambda>s. \<forall>it\<in>set s. rel it = relOf w (abs_path it)"
        targetAbs tree "[]" None out] collectFn_rel_inv wk
    by (metis empty_iff list.set(1))
  then have e: "map rel out = map (relOf w \<circ> abs_path) out"
    by (intro map_cong refl) simp
  have "inj_on (relOf w) (set (map abs_path out))"
    using inj sub by (rule inj_on_subset)
  then have "distinct (map (relOf w) (map abs_path out))"
    using da by (simp only: distinct_map)
  then have "distinct (map (relOf w \<circ> abs_path) out)" by simp
  then have "distinct (map rel out)" by (simp only: e)
  moreover have "mset (map rel items) = mset (map rel out)"
    using it by (simp add: mset_sort_Slice)
  ultimately show ?thesis using mset_eq_imp_distinct_iff by blast
qed

lemma sorted_distinct_key_unique:
  assumes "sorted (map rel xs)" and "sorted (map rel ys)" and "mset ys = mset xs"
    and "distinct (map rel xs)"
  shows "ys = xs"
proof -
  have i: "inj_on rel (set xs)" using assms(4) by (simp add: distinct_map)
  have "sort_key rel xs = ys"
    by (rule sort_key_inj_key_eq [OF assms(3) [symmetric] i assms(2)])
  moreover have "sort_key rel xs = xs"
    using assms(1) by (rule sort_key_id_if_sorted)
  ultimately show ?thesis by simp
qed

lemma collectFn_cong_world:
  assumes "Stat w' = Stat w" "ReadFile w' = ReadFile w" "Rel w' = Rel w"
    "Sum256hex w' = Sum256hex w"
  shows "collectFn w' c excl wd = collectFn w c excl wd"
  by (intro ext) (simp only: collectFn_def assms)

lemma Collect_cong_world:
  assumes "Getwd w' = Getwd w" "Lstat w' targetAbs = Lstat w targetAbs" "Stat w' = Stat w"
    "ReadFile w' = ReadFile w" "Rel w' = Rel w" "Sum256hex w' = Sum256hex w"
  shows "Collect w' targetAbs c = Collect w targetAbs c"
proof -
  have "getwd w' = getwd w" using assms(1) by (simp add: getwd_def)
  then have "collectFn w' c (SplitClean (Exclude c)) (getwd w')
      = collectFn w c (SplitClean (Exclude c)) (getwd w)"
    using collectFn_cong_world [OF assms(3-6)] by simp
  then show ?thesis using assms(2) by (simp add: Collect_def WalkDir_def)
qed

lemma collectFn_keeps_items:
  "collectFn w c excl wd path d err s = (r, s') \<Longrightarrow> P \<in> abs_path ` set s \<Longrightarrow> P \<in> abs_path ` set s'"
  by (auto simp: collectFn_def split: option.splits if_splits sum.splits)

lemma walk_collect_complete:
  "walkDir (collectFn w c excl wd) path n s = (None, s') \<Longrightarrow>
   p \<in> set (walkedFiles excl path n) \<Longrightarrow>
   strings_HasSuffix p (Ext c) \<Longrightarrow> filepath_Base p \<noteq> Out c \<Longrightarrow>
   Include c = [] \<or> strings_Contains (filepath_ToSlash p) (Include c) \<Longrightarrow>
   \<not> anyBad (filepath_ToSlash p) excl \<Longrightarrow>
     p \<in> abs_path ` set s'"
  "walkEntries (collectFn w c excl wd) path dirs s = (None, s') \<Longrightarrow>
   p \<in> set (walkedEntries excl path dirs) \<Longrightarrow>
   strings_HasSuffix p (Ext c) \<Longrightarrow> filepath_Base p \<noteq> Out c \<Longrightarrow>
   Include c = [] \<or> strings_Contains (filepath_ToSlash p) (Include c) \<Longrightarrow>
   \<not> anyBad (filepath_ToSlash p) excl \<Longrightarrow>
     p \<in> abs_path ` set s'"
proof (induction excl path n and excl path dirs arbitrary: s s' and s s'
    rule: walkedFiles_walkedEntries.induct)
  case (1 excl path)
  then have "p = path" by simp
  with 1 show ?case
    by (auto simp: collectFn_def split: sum.splits if_splits)
next
  case (2 excl path dirs rderr)
  from "2.prems"(2) have nb: "\<not> anyBad (filepath_ToSlash path) excl"
    and mem: "p \<in> set (walkedEntries excl path dirs)"
    by (auto split: if_splits)
  from nb have f: "collectFn w c excl wd path True None s = (None, s)"
    by (simp add: collectFn_def)
  have "rderr = None"
  proof (rule ccontr)
    assume "rderr \<noteq> None"
    then obtain e where "rderr = Some e" by auto
    moreover have "collectFn w c excl wd path True (Some e) s = (Some (Err e), s)"
      by (simp add: collectFn_def)
    ultimately show False using f "2.prems"(1) by simp
  qed
  with f "2.prems"(1) have "walkEntries (collectFn w c excl wd) path dirs s = (None, s')"
    by simp
  from "2.IH" [OF nb this mem "2.prems"(3-6)] show ?case .
next
  case (3 excl path)
  then show ?case by simp
next
  case (4 excl path name d1 dirs)
  obtain x s1 where w1: "walkDir (collectFn w c excl wd) (filepath_Join path name) d1 s = (x, s1)"
    by (cases "walkDir (collectFn w c excl wd) (filepath_Join path name) d1 s")
  have ns: "x \<noteq> Some SkipDir"
    using walkDir_collect_no_skip [of w c excl wd "filepath_Join path name" d1 s] w1 by simp
  have x: "x = None"
  proof (cases x)
    case (Some z)
    with ns obtain e where "z = Err e" by (cases z) auto
    with Some w1 "4.prems"(1) show ?thesis by simp
  qed simp
  with w1 "4.prems"(1) have w2: "walkEntries (collectFn w c excl wd) path dirs s1 = (None, s')"
    by simp
  from "4.prems"(2) consider "p \<in> set (walkedFiles excl (filepath_Join path name) d1)"
    | "p \<in> set (walkedEntries excl path dirs)"
    by auto
  then show ?case
  proof cases
    case 1
    from "4.IH"(1) [OF w1 [unfolded x] 1 "4.prems"(3-6)] have "p \<in> abs_path ` set s1" .
    with walk_invariant(2) [of "collectFn w c excl wd" "\<lambda>s. p \<in> abs_path ` set s"
        path dirs s1 None s'] collectFn_keeps_items w2
    show ?thesis by blast
  next
    case 2
    from "4.IH"(2) [OF w2 2 "4.prems"(3-6)] show ?thesis .
  qed
qed

lemma Collect_complete:
  assumes "Lstat w targetAbs = Inr tree" and "Collect w targetAbs c = Inr items"
    and "p \<in> set (walkedFiles (SplitClean (Exclude c)) targetAbs tree)"
    and "strings_HasSuffix p (Ext c)" and "filepath_Base p \<noteq> Out c"
    and "Include c = [] \<or> strings_Contains (filepath_ToSlash p) (Include c)"
    and "\<not> anyBad (filepath_ToSlash p) (SplitClean (Exclude c))"
  shows "\<exists>it\<in>set items. abs_path it = p"
proof -
  from Collect_walk [OF assms(1,2)] obtain out where
    wk: "walkDir (collectFn w c (SplitClean (Exclude c)) (getwd w)) targetAbs tree [] = (None, out)"
    and it: "items = sort_Slice out"
    by blast
  from walk_collect_complete(1) [OF wk assms(3-7)] have "p \<in> abs_path ` set out" .
  with it show ?thesis by (auto simp: set_sort_Slice)
qed

section \<open>The content transformer\<close>

text \<open>
  Claim C4. Without the flag that keeps the declaration line, the content transformer is
  \<^verbatim>\<open>StripPackageLine\<close>. It removes exactly the first line whose content, white space cut
  from both ends, begins with \<^verbatim>\<open>package\<close> and a space, and no other line: when the lines of
  the input are \<open>pre\<close>, then such a line \<open>ln\<close>, then \<open>post\<close>, and no line of \<open>pre\<close> is such a
  line, the result is the lines \<open>pre\<close> and \<open>post\<close> joined with newlines, whatever \<open>post\<close>
  holds; when no line is such a line the input is returned as it is. In particular
  \<^verbatim>\<open>package foo\nx:=1\npackage bar\n\<close> yields \<^verbatim>\<open>x:=1\npackage bar\n\<close>. The content that
  \<^verbatim>\<open>Dump\<close> emits is the data as read when \<open>Pkg\<close> is set, and \<^verbatim>\<open>StripPackageLine\<close> of it
  otherwise.
\<close>

theorem StripPackageLine_first_only:
  "(strings_Split src NL = pre @ ln # post \<and> (\<forall>l\<in>set pre. \<not> isPackageLine l) \<and> isPackageLine ln
      \<longrightarrow> StripPackageLine src = bytes_Join (pre @ post) [NL])
   \<and> ((\<forall>l\<in>set (strings_Split src NL). \<not> isPackageLine l) \<longrightarrow> StripPackageLine src = src)
   \<and> StripPackageLine (''package foo'' @ [NL] @ ''x:=1'' @ [NL] @ ''package bar'' @ [NL])
       = ''x:=1'' @ [NL] @ ''package bar'' @ [NL]
   \<and> contentOf c src = (if Pkg c then src else StripPackageLine src)"
proof (intro conjI impI)
  show "contentOf c src = (if Pkg c then src else StripPackageLine src)"
    by (simp add: contentOf_def)
next
  assume "strings_Split src NL = pre @ ln # post \<and> (\<forall>l\<in>set pre. \<not> isPackageLine l) \<and> isPackageLine ln"
  then show "StripPackageLine src = bytes_Join (pre @ post) [NL]"
    by (simp add: StripPackageLine_eq dropFirst_split)
next
  assume "\<forall>l\<in>set (strings_Split src NL). \<not> isPackageLine l"
  then show "StripPackageLine src = src"
    by (simp add: StripPackageLine_eq dropFirst_none Join_Split)
next
  show "StripPackageLine (''package foo'' @ [NL] @ ''x:=1'' @ [NL] @ ''package bar'' @ [NL])
       = ''x:=1'' @ [NL] @ ''package bar'' @ [NL]"
    by code_simp
qed

text \<open>The theorem at an input whose second line is the first package line, indented, and at
  an input with \<^verbatim>\<open>Package\<close> in upper case and with \<^verbatim>\<open>packages\<close>, which are no package lines.\<close>

theorem StripPackageLine_first_only_witness:
  "strings_Split (''// doc'' @ [NL] @ ''  package foo'' @ [NL] @ ''package bar'') NL
     = [''// doc''] @ ''  package foo'' # [''package bar'']
   \<and> \<not> isPackageLine ''// doc'' \<and> isPackageLine ''  package foo''
   \<and> StripPackageLine (''// doc'' @ [NL] @ ''  package foo'' @ [NL] @ ''package bar'')
       = bytes_Join ([''// doc''] @ [''package bar'']) [NL]
   \<and> strings_Split (''Package foo'' @ [NL] @ ''packages'') NL = [''Package foo'', ''packages'']
   \<and> \<not> isPackageLine ''Package foo'' \<and> \<not> isPackageLine ''packages''
   \<and> StripPackageLine (''Package foo'' @ [NL] @ ''packages'') = ''Package foo'' @ [NL] @ ''packages''"
proof -
  have s: "strings_Split (''// doc'' @ [NL] @ ''  package foo'' @ [NL] @ ''package bar'') NL
     = [''// doc''] @ ''  package foo'' # [''package bar'']"
    by code_simp
  have n: "\<not> isPackageLine ''// doc''" by code_simp
  have p: "isPackageLine ''  package foo''" by code_simp
  have s': "strings_Split (''Package foo'' @ [NL] @ ''packages'') NL = [''Package foo'', ''packages'']"
    by code_simp
  have q1: "\<not> isPackageLine ''Package foo''" by code_simp
  have q2: "\<not> isPackageLine ''packages''" by code_simp
  from StripPackageLine_first_only
    [of "''// doc'' @ [NL] @ ''  package foo'' @ [NL] @ ''package bar''"
        "[''// doc'']" "''  package foo''" "[''package bar'']"] s n p
  have a: "StripPackageLine (''// doc'' @ [NL] @ ''  package foo'' @ [NL] @ ''package bar'')
       = bytes_Join ([''// doc''] @ [''package bar'']) [NL]"
    by simp
  from StripPackageLine_first_only [of "''Package foo'' @ [NL] @ ''packages''"] s' q1 q2
  have b: "StripPackageLine (''Package foo'' @ [NL] @ ''packages'') = ''Package foo'' @ [NL] @ ''packages''"
    by simp
  from s n p a s' q1 q2 b show ?thesis by blast
qed

text \<open>
  Claim C7, as stated: the content transformer is idempotent. It is not: on
  \<^verbatim>\<open>package a\npackage b\<close> the first application removes the first line and the second
  application removes the line that was left.
\<close>

theorem StripPackageLine_not_idempotent:
  "StripPackageLine (StripPackageLine (''package a'' @ [NL] @ ''package b''))
     \<noteq> StripPackageLine (''package a'' @ [NL] @ ''package b'')"
  by code_simp

text \<open>
  Claim C7, amended. The content transformer is idempotent on exactly the inputs that have
  at most one line whose content, white space cut, begins with \<^verbatim>\<open>package\<close> and a space.
\<close>

theorem StripPackageLine_idempotent_iff:
  "StripPackageLine (StripPackageLine b) = StripPackageLine b \<longleftrightarrow>
   length (filter isPackageLine (strings_Split b NL)) \<le> 1"
  by (rule strip_idem_iff)

text \<open>The theorem at an input with one package line, and at the input of two.\<close>

theorem StripPackageLine_idempotent_iff_witness:
  "length (filter isPackageLine (strings_Split (''package a'' @ [NL] @ ''x := 1'' @ [NL]) NL)) \<le> 1
   \<and> StripPackageLine (StripPackageLine (''package a'' @ [NL] @ ''x := 1'' @ [NL]))
       = StripPackageLine (''package a'' @ [NL] @ ''x := 1'' @ [NL])
   \<and> \<not> length (filter isPackageLine (strings_Split (''package a'' @ [NL] @ ''package b'') NL)) \<le> 1"
proof -
  have h: "length (filter isPackageLine (strings_Split (''package a'' @ [NL] @ ''x := 1'' @ [NL]) NL)) \<le> 1"
    by code_simp
  have g: "StripPackageLine (StripPackageLine (''package a'' @ [NL] @ ''package b''))
     \<noteq> StripPackageLine (''package a'' @ [NL] @ ''package b'')"
    by code_simp
  from h StripPackageLine_idempotent_iff [of "''package a'' @ [NL] @ ''x := 1'' @ [NL]"]
  have a: "StripPackageLine (StripPackageLine (''package a'' @ [NL] @ ''x := 1'' @ [NL]))
       = StripPackageLine (''package a'' @ [NL] @ ''x := 1'' @ [NL])"
    by blast
  from g StripPackageLine_idempotent_iff [of "''package a'' @ [NL] @ ''package b''"]
  have b: "\<not> length (filter isPackageLine (strings_Split (''package a'' @ [NL] @ ''package b'') NL)) \<le> 1"
    by blast
  from h a b show ?thesis by blast
qed

section \<open>The file blocks of the serializer\<close>

text \<open>
  Claim C8, as stated: the content emitted in a file block ends with a newline, one being
  appended when the content does not end in one. It does not when the content is empty:
  the source appends the newline only to content of positive length. A file that holds its
  package line and nothing else has empty content once the line is removed, and so has an
  empty file; the end banner then follows the header of the block at once.
\<close>

theorem empty_content_gets_no_newline:
  "contentOf DefaultConfig ''package main'' @ forcedNewline (contentOf DefaultConfig ''package main'') = []
   \<and> contentOf DefaultConfig [] @ forcedNewline (contentOf DefaultConfig []) = []
   \<and> fileBlock DefaultConfig
        \<lparr>rel = ''a.go'', abs_path = ''/w/a.go'', sha = ''sha256-of-12-bytes'', size_bytes = 12\<rparr>
        ''package main''
      = blockHeader \<lparr>rel = ''a.go'', abs_path = ''/w/a.go'', sha = ''sha256-of-12-bytes'', size_bytes = 12\<rparr>
        @ endBanner"
proof -
  have a: "StripPackageLine ''package main'' = []" by code_simp
  have b: "StripPackageLine [] = []" by (rule StripPackageLine_Nil)
  show ?thesis
    by (simp add: contentOf_def forcedNewline_def fileBlock_def DefaultConfig_def a b)
qed

text \<open>
  Claim C8, amended. A file block is the header of the block, the content, the forced
  newline and the end banner. For every item whose content (after the package line is
  removed, if it is) is not empty, the content emitted ends with a newline: nothing is
  added when the content ends in a newline already, and one newline is added when it does
  not. When the content is empty nothing is added.
\<close>

theorem nonempty_content_ends_with_newline:
  "fileBlock c it data
     = blockHeader it @ (contentOf c data @ forcedNewline (contentOf c data)) @ endBanner
   \<and> (contentOf c data \<noteq> [] \<longrightarrow>
        last (contentOf c data @ forcedNewline (contentOf c data)) = NL
        \<and> (last (contentOf c data) = NL \<longrightarrow> forcedNewline (contentOf c data) = [])
        \<and> (last (contentOf c data) \<noteq> NL \<longrightarrow> forcedNewline (contentOf c data) = [NL]))
   \<and> (contentOf c data = [] \<longrightarrow> forcedNewline (contentOf c data) = [])"
  by (simp add: fileBlock_def forcedNewline_def)

text \<open>The theorem at a file that does not end in a newline.\<close>

theorem nonempty_content_ends_with_newline_witness:
  "contentOf DefaultConfig (''package m'' @ [NL] @ ''var x = 1'') = ''var x = 1''
   \<and> contentOf DefaultConfig (''package m'' @ [NL] @ ''var x = 1'') \<noteq> []
   \<and> last (contentOf DefaultConfig (''package m'' @ [NL] @ ''var x = 1'')) \<noteq> NL
   \<and> forcedNewline (contentOf DefaultConfig (''package m'' @ [NL] @ ''var x = 1'')) = [NL]
   \<and> last (contentOf DefaultConfig (''package m'' @ [NL] @ ''var x = 1'')
            @ forcedNewline (contentOf DefaultConfig (''package m'' @ [NL] @ ''var x = 1''))) = NL"
proof -
  have c: "contentOf DefaultConfig (''package m'' @ [NL] @ ''var x = 1'') = ''var x = 1''"
    by code_simp
  then have ne: "contentOf DefaultConfig (''package m'' @ [NL] @ ''var x = 1'') \<noteq> []" by simp
  from c have l: "last (contentOf DefaultConfig (''package m'' @ [NL] @ ''var x = 1'')) \<noteq> NL"
    by simp
  from nonempty_content_ends_with_newline
    [of DefaultConfig
       "\<lparr>rel = ''a.go'', abs_path = ''/w/a.go'', sha = ''sha256-of-19-bytes'', size_bytes = 19\<rparr>"
       "''package m'' @ [NL] @ ''var x = 1''"] ne l
  have "forcedNewline (contentOf DefaultConfig (''package m'' @ [NL] @ ''var x = 1'')) = [NL]"
    and "last (contentOf DefaultConfig (''package m'' @ [NL] @ ''var x = 1'')
            @ forcedNewline (contentOf DefaultConfig (''package m'' @ [NL] @ ''var x = 1''))) = NL"
    by blast+
  with c ne l show ?thesis by blast
qed

section \<open>The collector\<close>

text \<open>
  Claim C1, as stated: the items are sorted strictly by \<open>rel\<close>, and this order alone fixes
  the order of the file blocks. The source drops the errors of \<^verbatim>\<open>os.Getwd\<close> and of
  \<^verbatim>\<open>filepath.Rel\<close>. When the working directory cannot be determined and the target is
  given as a rooted path, \<^verbatim>\<open>filepath.Rel\<close> fails for every file and every item has the
  empty \<open>rel\<close>: the two items of the run below share their \<open>rel\<close>, the list is not
  strictly sorted, and \<open>rel\<close> does not say which of the two comes first.
\<close>

theorem items_with_equal_rel_when_getwd_fails:
  "Getwd lostWorld = Inl (Error ''getwd: no such file or directory'')
   \<and> getwd lostWorld = []
   \<and> AbsFrom lostWorld (getwd lostWorld) (Target lostConfig) = ''/t''
   \<and> Rel lostWorld [] ''/t/f01.go'' = Inl (Error ''Rel: can't make path relative'')
   \<and> Collect lostWorld ''/t'' lostConfig
       = Inr [\<lparr>rel = [], abs_path = ''/t/f01.go'', sha = ''sha256-of-20-bytes'', size_bytes = 20\<rparr>,
              \<lparr>rel = [], abs_path = ''/t/f02.go'', sha = ''sha256-of-20-bytes'', size_bytes = 20\<rparr>]
   \<and> \<not> sorted_wrt (<)
        (map rel
          [\<lparr>rel = [], abs_path = ''/t/f01.go'', sha = ''sha256-of-20-bytes'', size_bytes = 20\<rparr>,
           \<lparr>rel = [], abs_path = ''/t/f02.go'', sha = ''sha256-of-20-bytes'', size_bytes = 20\<rparr>])"
  by code_simp

text \<open>
  Claim C1, amended. The items that \<^verbatim>\<open>Collect\<close> returns are sorted by \<open>rel\<close> in the
  lexicographic order of their bytes. When the files that the walk reaches have pairwise
  distinct \<open>rel\<close>, the order is strict and \<open>rel\<close> alone determines it: every run of
  \<^verbatim>\<open>Collect\<close>, in whatever environment, that returns the same items returns them in the
  same order. The result of \<^verbatim>\<open>Collect\<close> depends on the working directory, the tree, the
  results of \<^verbatim>\<open>os.Stat\<close>, \<^verbatim>\<open>os.ReadFile\<close> and \<^verbatim>\<open>filepath.Rel\<close> and the digest only, not on
  the time or the other parts of the environment, so a run on an unchanged tree returns the
  same list again. The artifact that a successful \<^verbatim>\<open>Dump\<close> writes is the global header
  followed by the file blocks of exactly the items of \<^verbatim>\<open>Collect\<close>, in their order. In
  particular the files \<^verbatim>\<open>a/b.go\<close>, \<^verbatim>\<open>a/a.go\<close>, \<^verbatim>\<open>z.go\<close> come out as \<^verbatim>\<open>a/a.go\<close>, \<^verbatim>\<open>a/b.go\<close>,
  \<^verbatim>\<open>z.go\<close>.
\<close>

theorem items_sorted_by_rel_and_blocks_in_item_order:
  "(Collect w targetAbs c = Inr items \<longrightarrow> sorted (map rel items))
   \<and> (Lstat w targetAbs = Inr tree
       \<and> distinct (map (relOf w) (walkedFiles (SplitClean (Exclude c)) targetAbs tree))
       \<and> Collect w targetAbs c = Inr items \<longrightarrow>
         sorted_wrt (<) (map rel items)
         \<and> (Collect w' targetAbs' c' = Inr items' \<and> mset items' = mset items \<longrightarrow> items' = items))
   \<and> (Getwd w' = Getwd w \<and> Lstat w' targetAbs = Lstat w targetAbs \<and> Stat w' = Stat w
       \<and> ReadFile w' = ReadFile w \<and> Rel w' = Rel w \<and> Sum256hex w' = Sum256hex w \<longrightarrow>
         Collect w' targetAbs c = Collect w targetAbs c)
   \<and> (let wd = getwd w;
           rootAbs = AbsFrom w wd (Root c);
           targetAbs = AbsFrom w wd (Target c);
           outAbs = AbsFrom w rootAbs (Out c)
       in fst (Dump w c) = Inr res \<longrightarrow>
            (\<exists>items datas.
               Collect w targetAbs c = Inr items
               \<and> map (\<lambda>it. ReadFileDump w (abs_path it)) items = map Inr datas
               \<and> snd (Dump w c)
                   = [MkdirAllCall (filepath_Dir outAbs),
                      WriteFileCall outAbs
                        (dumpHeader w wd rootAbs targetAbs outAbs
                           @ concat (map2 (fileBlock c) items datas))]))
   \<and> map_sum id (map rel) (Collect orderWorld ''/w'' orderConfig)
       = Inr [''a/a.go'', ''a/b.go'', ''z.go'']"
proof (intro conjI impI)
  assume "Collect w targetAbs c = Inr items"
  then show "sorted (map rel items)" by (rule Collect_sorted)
next
  assume a: "Lstat w targetAbs = Inr tree
       \<and> distinct (map (relOf w) (walkedFiles (SplitClean (Exclude c)) targetAbs tree))
       \<and> Collect w targetAbs c = Inr items"
  then have s: "sorted (map rel items)" using Collect_sorted by blast
  from a have d: "distinct (map rel items)" using Collect_distinct_rel by blast
  from s d show "sorted_wrt (<) (map rel items)" by (simp add: strict_sorted_iff)
  show "items' = items" if b: "Collect w' targetAbs' c' = Inr items' \<and> mset items' = mset items"
  proof -
    from b have "sorted (map rel items')" using Collect_sorted by blast
    with s b d show ?thesis using sorted_distinct_key_unique by blast
  qed
next
  assume "Getwd w' = Getwd w \<and> Lstat w' targetAbs = Lstat w targetAbs \<and> Stat w' = Stat w
       \<and> ReadFile w' = ReadFile w \<and> Rel w' = Rel w \<and> Sum256hex w' = Sum256hex w"
  then show "Collect w' targetAbs c = Collect w targetAbs c"
    using Collect_cong_world by blast
next
  show "let wd = getwd w;
           rootAbs = AbsFrom w wd (Root c);
           targetAbs = AbsFrom w wd (Target c);
           outAbs = AbsFrom w rootAbs (Out c)
       in fst (Dump w c) = Inr res \<longrightarrow>
            (\<exists>items datas.
               Collect w targetAbs c = Inr items
               \<and> map (\<lambda>it. ReadFileDump w (abs_path it)) items = map Inr datas
               \<and> snd (Dump w c)
                   = [MkdirAllCall (filepath_Dir outAbs),
                      WriteFileCall outAbs
                        (dumpHeader w wd rootAbs targetAbs outAbs
                           @ concat (map2 (fileBlock c) items datas))])"
    unfolding Let_def
  proof
    let ?t = "AbsFrom w (getwd w) (Target c)"
    let ?o = "AbsFrom w (AbsFrom w (getwd w) (Root c)) (Out c)"
    let ?h = "dumpHeader w (getwd w) (AbsFrom w (getwd w) (Root c)) ?t ?o"
    assume ok: "fst (Dump w c) = Inr res"
    then obtain items where col: "Collect w ?t c = Inr items"
      by (cases "Collect w ?t c") (auto simp: Dump_def Let_def)
    with ok obtain buf where lp: "dumpLoop w c items ?h = Inr buf"
      by (cases "dumpLoop w c items ?h") (auto simp: Dump_def Let_def)
    from dumpLoop_blocks [OF lp] obtain datas where
      m: "map (\<lambda>it. ReadFileDump w (abs_path it)) items = map Inr datas"
      and b: "buf = ?h @ concat (map2 (fileBlock c) items datas)"
      by blast
    from ok col lp have "snd (Dump w c) = [MkdirAllCall (filepath_Dir ?o), WriteFileCall ?o buf]"
      by (auto simp: Dump_def Let_def split: option.splits)
    with col m b
    show "\<exists>items datas.
               Collect w ?t c = Inr items
               \<and> map (\<lambda>it. ReadFileDump w (abs_path it)) items = map Inr datas
               \<and> snd (Dump w c)
                   = [MkdirAllCall (filepath_Dir ?o),
                      WriteFileCall ?o (?h @ concat (map2 (fileBlock c) items datas))]"
      by blast
  qed
next
  show "map_sum id (map rel) (Collect orderWorld ''/w'' orderConfig)
       = Inr [''a/a.go'', ''a/b.go'', ''z.go'']"
    by code_simp
qed

text \<open>The theorem at a tree where the walk meets \<^verbatim>\<open>a/x.go\<close> before \<^verbatim>\<open>a.go\<close> and the sorted
  order is the other one (the dot is smaller than the slash), at the same tree listed the
  other way round and at a later time, and at the run of \<^verbatim>\<open>Dump\<close> on the tree of the three
  files.\<close>

theorem items_sorted_by_rel_and_blocks_in_item_order_witness:
  "Lstat siblingWorld ''/w'' = Inr (Dir [(''a'', Dir [(''x.go'', File)] None), (''a.go'', File)] None)
   \<and> walkedFiles (SplitClean (Exclude orderConfig)) ''/w''
        (Dir [(''a'', Dir [(''x.go'', File)] None), (''a.go'', File)] None)
       = [''/w/a/x.go'', ''/w/a.go'']
   \<and> map (relOf siblingWorld) [''/w/a/x.go'', ''/w/a.go''] = [''a/x.go'', ''a.go'']
   \<and> distinct [''a/x.go'', ''a.go'']
   \<and> Collect siblingWorld ''/w'' orderConfig
     = Inr [\<lparr>rel = ''a.go'', abs_path = ''/w/a.go'', sha = ''sha256-of-20-bytes'', size_bytes = 20\<rparr>,
            \<lparr>rel = ''a/x.go'', abs_path = ''/w/a/x.go'', sha = ''sha256-of-20-bytes'', size_bytes = 20\<rparr>]
   \<and> sorted [''a.go'', ''a/x.go'']
   \<and> sorted_wrt (<) [''a.go'', ''a/x.go'']
   \<and> Collect swappedWorld ''/w'' orderConfig
     = Inr [\<lparr>rel = ''a.go'', abs_path = ''/w/a.go'', sha = ''sha256-of-20-bytes'', size_bytes = 20\<rparr>,
            \<lparr>rel = ''a/x.go'', abs_path = ''/w/a/x.go'', sha = ''sha256-of-20-bytes'', size_bytes = 20\<rparr>]
   \<and> Collect laterWorld ''/w'' orderConfig = Collect siblingWorld ''/w'' orderConfig
   \<and> fst (Dump orderWorld orderConfig) = Inr (''/w/models_tree.txt'', 3)
   \<and> snd (Dump orderWorld orderConfig)
       = [MkdirAllCall ''/w'',
          WriteFileCall ''/w/models_tree.txt''
            (dumpHeader orderWorld ''/w'' ''/w'' ''/w'' ''/w/models_tree.txt''
             @ concat (map2 (fileBlock orderConfig)
                 [\<lparr>rel = ''a/a.go'', abs_path = ''/w/a/a.go'', sha = ''sha256-of-20-bytes'', size_bytes = 20\<rparr>,
                  \<lparr>rel = ''a/b.go'', abs_path = ''/w/a/b.go'', sha = ''sha256-of-20-bytes'', size_bytes = 20\<rparr>,
                  \<lparr>rel = ''z.go'', abs_path = ''/w/z.go'', sha = ''sha256-of-20-bytes'', size_bytes = 20\<rparr>]
                 [goFile, goFile, goFile]))]"
proof -
  let ?a = "\<lparr>rel = ''a.go'', abs_path = ''/w/a.go'', sha = ''sha256-of-20-bytes'', size_bytes = 20\<rparr>"
  let ?x = "\<lparr>rel = ''a/x.go'', abs_path = ''/w/a/x.go'', sha = ''sha256-of-20-bytes'', size_bytes = 20\<rparr>"
  let ?tree = "Dir [(''a'', Dir [(''x.go'', File)] None), (''a.go'', File)] None"
  let ?items = "[\<lparr>rel = ''a/a.go'', abs_path = ''/w/a/a.go'', sha = ''sha256-of-20-bytes'', size_bytes = 20\<rparr>,
                  \<lparr>rel = ''a/b.go'', abs_path = ''/w/a/b.go'', sha = ''sha256-of-20-bytes'', size_bytes = 20\<rparr>,
                  \<lparr>rel = ''z.go'', abs_path = ''/w/z.go'', sha = ''sha256-of-20-bytes'', size_bytes = 20\<rparr>]"
  have ls: "Lstat siblingWorld ''/w'' = Inr ?tree" by code_simp
  have wf: "walkedFiles (SplitClean (Exclude orderConfig)) ''/w'' ?tree = [''/w/a/x.go'', ''/w/a.go'']"
    by code_simp
  have ro: "map (relOf siblingWorld) [''/w/a/x.go'', ''/w/a.go''] = [''a/x.go'', ''a.go'']"
    by code_simp
  have di: "distinct [''a/x.go'', ''a.go'']" by simp
  from wf ro di
  have dr: "distinct (map (relOf siblingWorld) (walkedFiles (SplitClean (Exclude orderConfig)) ''/w'' ?tree))"
    by (simp only:)
  have col: "Collect siblingWorld ''/w'' orderConfig = Inr [?a, ?x]" by code_simp
  have col': "Collect swappedWorld ''/w'' orderConfig = Inr [?x, ?a] \<or>
      Collect swappedWorld ''/w'' orderConfig = Inr [?a, ?x]"
    by code_simp
  have ms: "mset [?x, ?a] = mset [?a, ?x]" by simp
  have e1: "Getwd laterWorld = Getwd siblingWorld" by (simp add: laterWorld_def)
  have e2: "Lstat laterWorld ''/w'' = Lstat siblingWorld ''/w''" by (simp add: laterWorld_def)
  have e3: "Stat laterWorld = Stat siblingWorld" by (simp add: laterWorld_def)
  have e4: "ReadFile laterWorld = ReadFile siblingWorld" by (simp add: laterWorld_def)
  have e5: "Rel laterWorld = Rel siblingWorld" by (simp add: laterWorld_def)
  have e6: "Sum256hex laterWorld = Sum256hex siblingWorld" by (simp add: laterWorld_def)
  note t = items_sorted_by_rel_and_blocks_in_item_order
    [of siblingWorld "''/w''" orderConfig "[?a, ?x]" ?tree laterWorld "''/w''" orderConfig "[?a, ?x]"]
  from t col have s: "sorted (map rel [?a, ?x])" by blast
  from t ls dr col have ss: "sorted_wrt (<) (map rel [?a, ?x])" by blast
  from items_sorted_by_rel_and_blocks_in_item_order
    [of siblingWorld "''/w''" orderConfig "[?a, ?x]" ?tree swappedWorld "''/w''" orderConfig "[?x, ?a]"]
    ls dr col ms col'
  have sw: "Collect swappedWorld ''/w'' orderConfig = Inr [?a, ?x]"
    by auto
  from t e1 e2 e3 e4 e5 e6
  have st: "Collect laterWorld ''/w'' orderConfig = Collect siblingWorld ''/w'' orderConfig"
    by blast
  have wd: "getwd orderWorld = ''/w''" by code_simp
  have r: "AbsFrom orderWorld ''/w'' (Root orderConfig) = ''/w''" by code_simp
  have tg: "AbsFrom orderWorld ''/w'' (Target orderConfig) = ''/w''" by code_simp
  have o: "AbsFrom orderWorld ''/w'' (Out orderConfig) = ''/w/models_tree.txt''" by code_simp
  have dr': "filepath_Dir ''/w/models_tree.txt'' = ''/w''" by code_simp
  have c3: "Collect orderWorld ''/w'' orderConfig = Inr ?items" by code_simp
  have rd: "\<And>p. ReadFileDump orderWorld p = Inr goFile"
    by (simp add: orderWorld_def testWorld_def)
  have f: "fst (Dump orderWorld orderConfig) = Inr (''/w/models_tree.txt'', 3)" by code_simp
  from items_sorted_by_rel_and_blocks_in_item_order
    [of orderWorld _ orderConfig _ _ _ _ _ _ "(''/w/models_tree.txt'', 3)",
      unfolded Let_def wd r tg o dr'] f
  obtain items datas where
    i: "Collect orderWorld ''/w'' orderConfig = Inr items"
    and dd: "map (\<lambda>it. ReadFileDump orderWorld (abs_path it)) items = map Inr datas"
    and sn: "snd (Dump orderWorld orderConfig)
       = [MkdirAllCall ''/w'',
          WriteFileCall ''/w/models_tree.txt''
            (dumpHeader orderWorld ''/w'' ''/w'' ''/w'' ''/w/models_tree.txt''
             @ concat (map2 (fileBlock orderConfig) items datas))]"
    by blast
  from i c3 have items: "items = ?items" by simp
  with dd rd have datas: "datas = [goFile, goFile, goFile]" by auto
  from sn items datas
  have sn': "snd (Dump orderWorld orderConfig)
       = [MkdirAllCall ''/w'',
          WriteFileCall ''/w/models_tree.txt''
            (dumpHeader orderWorld ''/w'' ''/w'' ''/w'' ''/w/models_tree.txt''
             @ concat (map2 (fileBlock orderConfig) ?items [goFile, goFile, goFile]))]"
    by (simp only:)
  from s ss have k: "sorted [''a.go'', ''a/x.go''] \<and> sorted_wrt (<) [''a.go'', ''a/x.go'']"
    by simp
  from ls wf ro di col k sw st f sn' show ?thesis by blast
qed

text \<open>
  Claim C2: a file whose base name equals the base name of the output path is not
  collected. The source compares the base name of the file with the whole of \<open>Out\<close>, not
  with its base name. With \<open>Out\<close> set to \<^verbatim>\<open>out/dump.txt\<close> the output path is
  \<^verbatim>\<open>/w/out/dump.txt\<close>, and the file at that very path, an earlier artifact, is collected.
\<close>

theorem output_path_with_directory_is_not_excluded:
  "AbsFrom selfWorld (AbsFrom selfWorld (getwd selfWorld) (Root selfConfig)) (Out selfConfig)
     = ''/w/out/dump.txt''
   \<and> AbsFrom selfWorld (getwd selfWorld) (Target selfConfig) = ''/w''
   \<and> filepath_Base ''/w/out/dump.txt'' = filepath_Base (Out selfConfig)
   \<and> Collect selfWorld ''/w'' selfConfig
       = Inr [\<lparr>rel = ''notes.txt'', abs_path = ''/w/notes.txt'', sha = ''sha256-of-6-bytes'',
                 size_bytes = 6\<rparr>,
              \<lparr>rel = ''out/dump.txt'', abs_path = ''/w/out/dump.txt'', sha = ''sha256-of-6-bytes'',
                 size_bytes = 6\<rparr>]"
  by code_simp

text \<open>
  Claim C3. When the path of a directory contains an entry of the cleaned exclude list
  (each entry is non-empty), the walk of that directory returns at once, with no error and
  with the list of items as it was, whatever the directory holds, also entries that
  cannot be read; the loop over the entries of its parent goes on as if the directory were
  not there. No item that \<^verbatim>\<open>Collect\<close> returns has a path that begins with the path of such a
  directory, and no item has a path that contains an entry of the exclude list.
\<close>

theorem pruned_directory_is_skipped:
  "(bad \<in> set (SplitClean (Exclude c)) \<and> filepath_ToSlash path = pre @ bad @ post \<longrightarrow>
      walkDir (collectFn w c (SplitClean (Exclude c)) wd) path (Dir dirs rderr) out = (None, out)
      \<and> (filepath_Join parent name = path \<longrightarrow>
           walkEntries (collectFn w c (SplitClean (Exclude c)) wd) parent
               ((name, Dir dirs rderr) # rest) out
             = walkEntries (collectFn w c (SplitClean (Exclude c)) wd) parent rest out)
      \<and> (Collect w targetAbs c = Inr items \<and> it \<in> set items \<longrightarrow>
            \<not> strings_HasPrefix (filepath_ToSlash (abs_path it)) (filepath_ToSlash path)))
   \<and> (Collect w targetAbs c = Inr items \<and> it \<in> set items \<and> bad \<in> set (SplitClean (Exclude c)) \<longrightarrow>
        \<not> strings_Contains (filepath_ToSlash (abs_path it)) bad)"
proof (intro conjI impI)
  assume a: "bad \<in> set (SplitClean (Exclude c)) \<and> filepath_ToSlash path = pre @ bad @ post"
  then have bad: "anyBad (filepath_ToSlash path) (SplitClean (Exclude c))"
    using anyBad_SplitClean_I by blast
  then show w: "walkDir (collectFn w c (SplitClean (Exclude c)) wd) path (Dir dirs rderr) out = (None, out)"
    by (rule walkDir_pruned)
  show "walkEntries (collectFn w c (SplitClean (Exclude c)) wd) parent
               ((name, Dir dirs rderr) # rest) out
             = walkEntries (collectFn w c (SplitClean (Exclude c)) wd) parent rest out"
    if "filepath_Join parent name = path"
    using that w by simp
  show "\<not> strings_HasPrefix (filepath_ToSlash (abs_path it)) (filepath_ToSlash path)"
    if b: "Collect w targetAbs c = Inr items \<and> it \<in> set items"
  proof
    assume "strings_HasPrefix (filepath_ToSlash (abs_path it)) (filepath_ToSlash path)"
    then obtain more where "filepath_ToSlash (abs_path it) = filepath_ToSlash path @ more"
      by (auto simp: HasPrefix_iff)
    with a have "filepath_ToSlash (abs_path it) = pre @ bad @ (post @ more)" by simp
    with a have "anyBad (filepath_ToSlash (abs_path it)) (SplitClean (Exclude c))"
      using anyBad_SplitClean_I by blast
    with Collect_accepted [of w targetAbs c items it] b show False by blast
  qed
next
  assume a: "Collect w targetAbs c = Inr items \<and> it \<in> set items \<and> bad \<in> set (SplitClean (Exclude c))"
  with Collect_accepted [of w targetAbs c items it]
  have "\<not> anyBad (filepath_ToSlash (abs_path it)) (SplitClean (Exclude c))" by blast
  with a show "\<not> strings_Contains (filepath_ToSlash (abs_path it)) bad"
    unfolding anyBad_SplitClean_iff by blast
qed

text \<open>The theorem at the directory \<^verbatim>\<open>/w/vendor/lib\<close>, which cannot be listed and holds a
  \<^verbatim>\<open>.go\<close> file, under the default exclude list.\<close>

theorem pruned_directory_is_skipped_witness:
  "''/vendor/'' \<in> set (SplitClean (Exclude orderConfig))
   \<and> filepath_ToSlash ''/w/vendor/lib'' = ''/w'' @ ''/vendor/'' @ ''lib''
   \<and> filepath_Join ''/w/vendor'' ''lib'' = ''/w/vendor/lib''
   \<and> walkDir (collectFn prunedWorld orderConfig (SplitClean (Exclude orderConfig)) ''/w'')
        ''/w/vendor/lib'' (Dir [(''x.go'', File)] (Some (Error ''readdirent: input/output error''))) []
       = (None, [])
   \<and> walkEntries (collectFn prunedWorld orderConfig (SplitClean (Exclude orderConfig)) ''/w'')
        ''/w/vendor''
        [(''lib'', Dir [(''x.go'', File)] (Some (Error ''readdirent: input/output error'')))] []
       = (None, [])
   \<and> Collect prunedWorld ''/w'' orderConfig
       = Inr [\<lparr>rel = ''main.go'', abs_path = ''/w/main.go'', sha = ''sha256-of-20-bytes'',
                 size_bytes = 20\<rparr>]
   \<and> \<not> strings_HasPrefix (filepath_ToSlash ''/w/main.go'') (filepath_ToSlash ''/w/vendor/lib'')
   \<and> \<not> strings_Contains (filepath_ToSlash ''/w/main.go'') ''/vendor/''"
proof -
  let ?it = "\<lparr>rel = ''main.go'', abs_path = ''/w/main.go'', sha = ''sha256-of-20-bytes'',
                 size_bytes = 20\<rparr>"
  have m: "''/vendor/'' \<in> set (SplitClean (Exclude orderConfig))" by code_simp
  have p: "filepath_ToSlash ''/w/vendor/lib'' = ''/w'' @ ''/vendor/'' @ ''lib''" by code_simp
  have j: "filepath_Join ''/w/vendor'' ''lib'' = ''/w/vendor/lib''" by code_simp
  have col: "Collect prunedWorld ''/w'' orderConfig = Inr [?it]" by code_simp
  have mem: "?it \<in> set [?it]" by simp
  note t = pruned_directory_is_skipped
    [of "''/vendor/''" orderConfig "''/w/vendor/lib''" "''/w''" "''lib''" prunedWorld "''/w''"
        "[(''x.go'', File)]" "Some (Error ''readdirent: input/output error'')" "[]"
        "''/w/vendor''" "''lib''" "[]" "''/w''" "[?it]" ?it]
  from t m p
  have a: "walkDir (collectFn prunedWorld orderConfig (SplitClean (Exclude orderConfig)) ''/w'')
        ''/w/vendor/lib'' (Dir [(''x.go'', File)] (Some (Error ''readdirent: input/output error''))) []
       = (None, [])"
    by blast
  from t m p j
  have "walkEntries (collectFn prunedWorld orderConfig (SplitClean (Exclude orderConfig)) ''/w'')
        ''/w/vendor''
        [(''lib'', Dir [(''x.go'', File)] (Some (Error ''readdirent: input/output error'')))] []
       = walkEntries (collectFn prunedWorld orderConfig (SplitClean (Exclude orderConfig)) ''/w'')
        ''/w/vendor'' [] []"
    by blast
  then have b: "walkEntries (collectFn prunedWorld orderConfig (SplitClean (Exclude orderConfig)) ''/w'')
        ''/w/vendor''
        [(''lib'', Dir [(''x.go'', File)] (Some (Error ''readdirent: input/output error'')))] []
       = (None, [])"
    by simp
  from t m p col mem
  have c: "\<not> strings_HasPrefix (filepath_ToSlash (abs_path ?it)) (filepath_ToSlash ''/w/vendor/lib'')"
    by blast
  from t m col mem
  have d: "\<not> strings_Contains (filepath_ToSlash (abs_path ?it)) ''/vendor/''"
    by blast
  from m p j a b col c d show ?thesis by simp
qed

text \<open>
  Claim C6, as stated: a file is collected only if its base name ends with \<open>Ext\<close>. The
  source tests the suffix on the whole path. With the suffix \<^verbatim>\<open>/a.go\<close> the file
  \<^verbatim>\<open>/t/a.go\<close> is collected, and its base name \<^verbatim>\<open>a.go\<close> does not end with \<^verbatim>\<open>/a.go\<close>.
\<close>

theorem suffix_with_slash_is_matched_on_the_path:
  "Collect slashWorld ''/t'' slashConfig
     = Inr [\<lparr>rel = ''a.go'', abs_path = ''/t/a.go'', sha = ''sha256-of-20-bytes'', size_bytes = 20\<rparr>]
   \<and> filepath_Base ''/t/a.go'' = ''a.go''
   \<and> \<not> strings_HasSuffix (filepath_Base ''/t/a.go'') (Ext slashConfig)"
  by code_simp

text \<open>
  Claim C6, amended. A file is collected only if its path, as the traversal hands it to
  the callback, ends with \<open>Ext\<close> (the bytes are compared as they are); a file whose path
  does not end with \<open>Ext\<close> is left out. When \<open>Ext\<close> holds no slash, the base name of every
  collected file ends with \<open>Ext\<close>, and a file whose base name does not end with it is left
  out.
\<close>

theorem collected_only_if_path_ends_with_ext:
  "(Collect w targetAbs c = Inr items \<and> it \<in> set items \<longrightarrow>
      strings_HasSuffix (abs_path it) (Ext c)
      \<and> (CHR ''/'' \<notin> set (Ext c) \<longrightarrow> strings_HasSuffix (filepath_Base (abs_path it)) (Ext c)))
   \<and> (\<not> strings_HasSuffix path (Ext c) \<longrightarrow>
        walkDir (collectFn w c excl wd) path File out = (None, out))
   \<and> (CHR ''/'' \<notin> set (Ext c) \<and> \<not> strings_HasSuffix (filepath_Base path) (Ext c) \<longrightarrow>
        walkDir (collectFn w c excl wd) path File out = (None, out))"
proof (intro conjI impI)
  assume a: "Collect w targetAbs c = Inr items \<and> it \<in> set items"
  then show "strings_HasSuffix (abs_path it) (Ext c)"
    using Collect_accepted [of w targetAbs c items it] by blast
  then show "strings_HasSuffix (filepath_Base (abs_path it)) (Ext c)" if "CHR ''/'' \<notin> set (Ext c)"
    using that by (rule HasSuffix_Base [rotated])
next
  assume "\<not> strings_HasSuffix path (Ext c)"
  then show "walkDir (collectFn w c excl wd) path File out = (None, out)"
    by (simp add: collectFn_def)
next
  assume "CHR ''/'' \<notin> set (Ext c) \<and> \<not> strings_HasSuffix (filepath_Base path) (Ext c)"
  then have "\<not> strings_HasSuffix path (Ext c)"
    using HasSuffix_Base [of "Ext c" path] by blast
  then show "walkDir (collectFn w c excl wd) path File out = (None, out)"
    by (simp add: collectFn_def)
qed

text \<open>The theorem at an item collected from the tree of \<^verbatim>\<open>a/b.go\<close>, \<^verbatim>\<open>a/a.go\<close> and
  \<^verbatim>\<open>z.go\<close>, and at a file \<^verbatim>\<open>/w/README.md\<close> under the suffix \<^verbatim>\<open>.go\<close>.\<close>

theorem collected_only_if_path_ends_with_ext_witness:
  "Collect orderWorld ''/w'' orderConfig
     = Inr [\<lparr>rel = ''a/a.go'', abs_path = ''/w/a/a.go'', sha = ''sha256-of-20-bytes'', size_bytes = 20\<rparr>,
            \<lparr>rel = ''a/b.go'', abs_path = ''/w/a/b.go'', sha = ''sha256-of-20-bytes'', size_bytes = 20\<rparr>,
            \<lparr>rel = ''z.go'', abs_path = ''/w/z.go'', sha = ''sha256-of-20-bytes'', size_bytes = 20\<rparr>]
   \<and> CHR ''/'' \<notin> set (Ext orderConfig)
   \<and> strings_HasSuffix ''/w/z.go'' (Ext orderConfig)
   \<and> strings_HasSuffix (filepath_Base ''/w/z.go'') (Ext orderConfig)
   \<and> \<not> strings_HasSuffix ''/w/README.md'' (Ext orderConfig)
   \<and> \<not> strings_HasSuffix (filepath_Base ''/w/README.md'') (Ext orderConfig)
   \<and> walkDir (collectFn orderWorld orderConfig (SplitClean (Exclude orderConfig)) ''/w'')
        ''/w/README.md'' File []
       = (None, [])"
proof -
  let ?z = "\<lparr>rel = ''z.go'', abs_path = ''/w/z.go'', sha = ''sha256-of-20-bytes'', size_bytes = 20\<rparr>"
  let ?items = "[\<lparr>rel = ''a/a.go'', abs_path = ''/w/a/a.go'', sha = ''sha256-of-20-bytes'', size_bytes = 20\<rparr>,
            \<lparr>rel = ''a/b.go'', abs_path = ''/w/a/b.go'', sha = ''sha256-of-20-bytes'', size_bytes = 20\<rparr>,
            ?z]"
  have col: "Collect orderWorld ''/w'' orderConfig = Inr ?items" by code_simp
  have mem: "?z \<in> set ?items" by simp
  have ns: "CHR ''/'' \<notin> set (Ext orderConfig)" by code_simp
  have nr: "\<not> strings_HasSuffix ''/w/README.md'' (Ext orderConfig)" by code_simp
  have nb: "\<not> strings_HasSuffix (filepath_Base ''/w/README.md'') (Ext orderConfig)" by code_simp
  note t = collected_only_if_path_ends_with_ext
    [of orderWorld "''/w''" orderConfig ?items ?z "''/w/README.md''"
        "SplitClean (Exclude orderConfig)" "''/w''" "[]"]
  from t col mem have a: "strings_HasSuffix (abs_path ?z) (Ext orderConfig)" by blast
  from t col mem ns have b: "strings_HasSuffix (filepath_Base (abs_path ?z)) (Ext orderConfig)"
    by blast
  from t nr
  have c: "walkDir (collectFn orderWorld orderConfig (SplitClean (Exclude orderConfig)) ''/w'')
        ''/w/README.md'' File [] = (None, [])"
    by blast
  from col ns a b nr nb c show ?thesis by simp
qed

text \<open>
  Claim C9. The entries of the exclude list are looked for in the whole path of a
  directory, the part above the target with it. When the path of the target directory
  contains an entry of the cleaned exclude list, the root of the walk is skipped and
  \<^verbatim>\<open>Collect\<close> returns the empty list and no error; \<^verbatim>\<open>Dump\<close> then writes the global header
  and nothing else, and reports zero files (when the two writing calls succeed).
\<close>

theorem excluded_target_gives_header_only:
  "(Lstat w targetAbs = Inr (Dir dirs rderr) \<and> bad \<in> set (SplitClean (Exclude c))
      \<and> filepath_ToSlash targetAbs = pre @ bad @ post \<longrightarrow>
        Collect w targetAbs c = Inr [])
   \<and> (let wd = getwd w;
           rootAbs = AbsFrom w wd (Root c);
           targetAbs = AbsFrom w wd (Target c);
           outAbs = AbsFrom w rootAbs (Out c);
           hdr = dumpHeader w wd rootAbs targetAbs outAbs
       in Lstat w targetAbs = Inr (Dir dirs rderr) \<and> bad \<in> set (SplitClean (Exclude c))
          \<and> filepath_ToSlash targetAbs = pre @ bad @ post
          \<and> MkdirAll w (filepath_Dir outAbs) = None \<and> WriteFile w outAbs hdr = None \<longrightarrow>
            Dump w c = (Inr (outAbs, 0),
                        [MkdirAllCall (filepath_Dir outAbs), WriteFileCall outAbs hdr]))"
proof (intro conjI impI)
  assume "Lstat w targetAbs = Inr (Dir dirs rderr) \<and> bad \<in> set (SplitClean (Exclude c))
      \<and> filepath_ToSlash targetAbs = pre @ bad @ post"
  then show "Collect w targetAbs c = Inr []"
    using Collect_pruned_root anyBad_SplitClean_I by blast
next
  show "let wd = getwd w;
           rootAbs = AbsFrom w wd (Root c);
           targetAbs = AbsFrom w wd (Target c);
           outAbs = AbsFrom w rootAbs (Out c);
           hdr = dumpHeader w wd rootAbs targetAbs outAbs
       in Lstat w targetAbs = Inr (Dir dirs rderr) \<and> bad \<in> set (SplitClean (Exclude c))
          \<and> filepath_ToSlash targetAbs = pre @ bad @ post
          \<and> MkdirAll w (filepath_Dir outAbs) = None \<and> WriteFile w outAbs hdr = None \<longrightarrow>
            Dump w c = (Inr (outAbs, 0),
                        [MkdirAllCall (filepath_Dir outAbs), WriteFileCall outAbs hdr])"
    unfolding Let_def
  proof
    let ?t = "AbsFrom w (getwd w) (Target c)"
    assume a: "Lstat w ?t = Inr (Dir dirs rderr) \<and> bad \<in> set (SplitClean (Exclude c))
      \<and> filepath_ToSlash ?t = pre @ bad @ post
      \<and> MkdirAll w (filepath_Dir (AbsFrom w (AbsFrom w (getwd w) (Root c)) (Out c))) = None
      \<and> WriteFile w (AbsFrom w (AbsFrom w (getwd w) (Root c)) (Out c))
           (dumpHeader w (getwd w) (AbsFrom w (getwd w) (Root c)) ?t
              (AbsFrom w (AbsFrom w (getwd w) (Root c)) (Out c))) = None"
    then have "Collect w ?t c = Inr []"
      using Collect_pruned_root anyBad_SplitClean_I by blast
    with a show "Dump w c =
        (Inr (AbsFrom w (AbsFrom w (getwd w) (Root c)) (Out c), 0),
         [MkdirAllCall (filepath_Dir (AbsFrom w (AbsFrom w (getwd w) (Root c)) (Out c))),
          WriteFileCall (AbsFrom w (AbsFrom w (getwd w) (Root c)) (Out c))
            (dumpHeader w (getwd w) (AbsFrom w (getwd w) (Root c)) ?t
              (AbsFrom w (AbsFrom w (getwd w) (Root c)) (Out c)))])"
      by (simp add: Dump_def Let_def)
  qed
qed

text \<open>The theorem at the default configuration, run in \<^verbatim>\<open>/home/u/vendor/proj\<close>: the default
  entry \<^verbatim>\<open>/vendor/\<close> occurs in the path of the target \<^verbatim>\<open>/home/u/vendor/proj/models\<close>.\<close>

theorem excluded_target_gives_header_only_witness:
  "AbsFrom vendorWorld (getwd vendorWorld) (Target DefaultConfig) = ''/home/u/vendor/proj/models''
   \<and> Lstat vendorWorld ''/home/u/vendor/proj/models'' = Inr (Dir [(''user.go'', File)] None)
   \<and> ''/vendor/'' \<in> set (SplitClean (Exclude DefaultConfig))
   \<and> filepath_ToSlash ''/home/u/vendor/proj/models'' = ''/home/u'' @ ''/vendor/'' @ ''proj/models''
   \<and> Collect vendorWorld ''/home/u/vendor/proj/models'' DefaultConfig = Inr []
   \<and> Dump vendorWorld DefaultConfig
       = (Inr (''/home/u/vendor/proj/models_tree.txt'', 0),
          [MkdirAllCall ''/home/u/vendor/proj'',
           WriteFileCall ''/home/u/vendor/proj/models_tree.txt''
             (dumpHeader vendorWorld ''/home/u/vendor/proj'' ''/home/u/vendor/proj''
                ''/home/u/vendor/proj/models'' ''/home/u/vendor/proj/models_tree.txt'')])"
proof -
  have wd: "getwd vendorWorld = ''/home/u/vendor/proj''" by code_simp
  have r: "AbsFrom vendorWorld ''/home/u/vendor/proj'' (Root DefaultConfig) = ''/home/u/vendor/proj''"
    by code_simp
  have t: "AbsFrom vendorWorld ''/home/u/vendor/proj'' (Target DefaultConfig) = ''/home/u/vendor/proj/models''"
    by code_simp
  have o: "AbsFrom vendorWorld ''/home/u/vendor/proj'' (Out DefaultConfig) = ''/home/u/vendor/proj/models_tree.txt''"
    by code_simp
  have d: "filepath_Dir ''/home/u/vendor/proj/models_tree.txt'' = ''/home/u/vendor/proj''"
    by code_simp
  have l: "Lstat vendorWorld ''/home/u/vendor/proj/models'' = Inr (Dir [(''user.go'', File)] None)"
    by code_simp
  have m: "''/vendor/'' \<in> set (SplitClean (Exclude DefaultConfig))" by code_simp
  have p: "filepath_ToSlash ''/home/u/vendor/proj/models'' = ''/home/u'' @ ''/vendor/'' @ ''proj/models''"
    by code_simp
  have mk: "MkdirAll vendorWorld ''/home/u/vendor/proj'' = None" by code_simp
  have wr: "\<And>b. WriteFile vendorWorld ''/home/u/vendor/proj/models_tree.txt'' b = None"
    by (simp add: vendorWorld_def testWorld_def)
  note th = excluded_target_gives_header_only
    [of vendorWorld _ "[(''user.go'', File)]" None "''/vendor/''" DefaultConfig "''/home/u''"
        "''proj/models''", unfolded Let_def wd r t o d]
  from th [of "''/home/u/vendor/proj/models''"] l m p
  have a: "Collect vendorWorld ''/home/u/vendor/proj/models'' DefaultConfig = Inr []"
    by blast
  from th [of "''/home/u/vendor/proj/models''"] l m p mk wr
  have b: "Dump vendorWorld DefaultConfig
       = (Inr (''/home/u/vendor/proj/models_tree.txt'', 0),
          [MkdirAllCall ''/home/u/vendor/proj'',
           WriteFileCall ''/home/u/vendor/proj/models_tree.txt''
             (dumpHeader vendorWorld ''/home/u/vendor/proj'' ''/home/u/vendor/proj''
                ''/home/u/vendor/proj/models'' ''/home/u/vendor/proj/models_tree.txt'')])"
    by blast
  from wd t l m p a b show ?thesis by simp
qed

text \<open>
  Claim C10. When \<open>Ext\<close> is empty every path ends with it. So, whenever \<^verbatim>\<open>Collect\<close> returns
  a list, every file that the walk reaches, that is not the output file by name, whose
  path contains \<open>Include\<close> if that is set, and whose path contains no entry of the exclude
  list has an item in the list, whatever its name. At the callback, such a file is
  appended to the items once \<^verbatim>\<open>os.Stat\<close> and \<^verbatim>\<open>os.ReadFile\<close> succeed on it.
\<close>

theorem empty_ext_matches_every_file:
  "(Ext c = [] \<longrightarrow> strings_HasSuffix path (Ext c))
   \<and> (Ext c = [] \<and> Lstat w targetAbs = Inr tree \<and> Collect w targetAbs c = Inr items
       \<and> path \<in> set (walkedFiles (SplitClean (Exclude c)) targetAbs tree)
       \<and> filepath_Base path \<noteq> Out c
       \<and> (Include c = [] \<or> strings_Contains (filepath_ToSlash path) (Include c))
       \<and> \<not> anyBad (filepath_ToSlash path) (SplitClean (Exclude c)) \<longrightarrow>
         (\<exists>it\<in>set items. abs_path it = path))
   \<and> (Ext c = [] \<and> filepath_Base path \<noteq> Out c
       \<and> (Include c = [] \<or> strings_Contains (filepath_ToSlash path) (Include c))
       \<and> \<not> anyBad (filepath_ToSlash path) excl
       \<and> Stat w path = Inr st \<and> ReadFile w path = Inr data \<longrightarrow>
         walkDir (collectFn w c excl wd) path File out
           = (None, out @ [\<lparr>rel = filepath_ToSlash (case Rel w wd path of Inl e \<Rightarrow> [] | Inr r \<Rightarrow> r),
                            abs_path = path, sha = Sum256hex w data, size_bytes = st\<rparr>]))"
proof (intro conjI impI)
  assume "Ext c = []"
  then show "strings_HasSuffix path (Ext c)" by (simp add: strings_HasSuffix_def)
next
  assume a: "Ext c = [] \<and> Lstat w targetAbs = Inr tree \<and> Collect w targetAbs c = Inr items
       \<and> path \<in> set (walkedFiles (SplitClean (Exclude c)) targetAbs tree)
       \<and> filepath_Base path \<noteq> Out c
       \<and> (Include c = [] \<or> strings_Contains (filepath_ToSlash path) (Include c))
       \<and> \<not> anyBad (filepath_ToSlash path) (SplitClean (Exclude c))"
  then have "strings_HasSuffix path (Ext c)" by (simp add: strings_HasSuffix_def)
  with a show "\<exists>it\<in>set items. abs_path it = path"
    using Collect_complete [of w targetAbs tree c items path] by blast
next
  assume "Ext c = [] \<and> filepath_Base path \<noteq> Out c
       \<and> (Include c = [] \<or> strings_Contains (filepath_ToSlash path) (Include c))
       \<and> \<not> anyBad (filepath_ToSlash path) excl
       \<and> Stat w path = Inr st \<and> ReadFile w path = Inr data"
  then show "walkDir (collectFn w c excl wd) path File out
           = (None, out @ [\<lparr>rel = filepath_ToSlash (case Rel w wd path of Inl e \<Rightarrow> [] | Inr r \<Rightarrow> r),
                            abs_path = path, sha = Sum256hex w data, size_bytes = st\<rparr>])"
    by (simp add: collectFn_def strings_HasSuffix_def)
qed

text \<open>The theorem at the file \<^verbatim>\<open>/w/Makefile\<close>, and the run of \<^verbatim>\<open>Collect\<close> that collects it.\<close>

theorem empty_ext_matches_every_file_witness:
  "Ext plainConfig = [] \<and> strings_HasSuffix ''/w/Makefile'' (Ext plainConfig)
   \<and> Lstat plainWorld ''/w'' = Inr (Dir [(''Makefile'', File), (''notes.txt'', File)] None)
   \<and> walkedFiles (SplitClean (Exclude plainConfig)) ''/w''
        (Dir [(''Makefile'', File), (''notes.txt'', File)] None)
       = [''/w/Makefile'', ''/w/notes.txt'']
   \<and> filepath_Base ''/w/Makefile'' \<noteq> Out plainConfig
   \<and> Include plainConfig = []
   \<and> \<not> anyBad (filepath_ToSlash ''/w/Makefile'') (SplitClean (Exclude plainConfig))
   \<and> Collect plainWorld ''/w'' plainConfig
       = Inr [\<lparr>rel = ''Makefile'', abs_path = ''/w/Makefile'', sha = ''sha256-of-6-bytes'',
                 size_bytes = 6\<rparr>,
              \<lparr>rel = ''notes.txt'', abs_path = ''/w/notes.txt'', sha = ''sha256-of-6-bytes'',
                 size_bytes = 6\<rparr>]
   \<and> (\<exists>it\<in>set [\<lparr>rel = ''Makefile'', abs_path = ''/w/Makefile'', sha = ''sha256-of-6-bytes'',
                    size_bytes = 6\<rparr>,
                  \<lparr>rel = ''notes.txt'', abs_path = ''/w/notes.txt'', sha = ''sha256-of-6-bytes'',
                    size_bytes = 6\<rparr>]. abs_path it = ''/w/Makefile'')
   \<and> Stat plainWorld ''/w/Makefile'' = Inr 6
   \<and> ReadFile plainWorld ''/w/Makefile'' = Inr (''hello'' @ [NL])
   \<and> walkDir (collectFn plainWorld plainConfig (SplitClean (Exclude plainConfig)) ''/w'')
        ''/w/Makefile'' File []
       = (None, [\<lparr>rel = ''Makefile'', abs_path = ''/w/Makefile'', sha = ''sha256-of-6-bytes'',
                   size_bytes = 6\<rparr>])"
proof -
  let ?tree = "Dir [(''Makefile'', File), (''notes.txt'', File)] None"
  let ?items = "[\<lparr>rel = ''Makefile'', abs_path = ''/w/Makefile'', sha = ''sha256-of-6-bytes'',
                 size_bytes = 6\<rparr>,
              \<lparr>rel = ''notes.txt'', abs_path = ''/w/notes.txt'', sha = ''sha256-of-6-bytes'',
                 size_bytes = 6\<rparr>]"
  have e: "Ext plainConfig = []" by code_simp
  have ls: "Lstat plainWorld ''/w'' = Inr ?tree" by code_simp
  have wf: "walkedFiles (SplitClean (Exclude plainConfig)) ''/w'' ?tree
      = [''/w/Makefile'', ''/w/notes.txt'']"
    by code_simp
  then have mem: "''/w/Makefile'' \<in> set (walkedFiles (SplitClean (Exclude plainConfig)) ''/w'' ?tree)"
    by simp
  have b: "filepath_Base ''/w/Makefile'' \<noteq> Out plainConfig" by code_simp
  have i: "Include plainConfig = []" by code_simp
  have x: "\<not> anyBad (filepath_ToSlash ''/w/Makefile'') (SplitClean (Exclude plainConfig))"
    by code_simp
  have s: "Stat plainWorld ''/w/Makefile'' = Inr 6" by code_simp
  have r: "ReadFile plainWorld ''/w/Makefile'' = Inr (''hello'' @ [NL])" by code_simp
  have rl: "filepath_ToSlash (case Rel plainWorld ''/w'' ''/w/Makefile'' of Inl e \<Rightarrow> [] | Inr r \<Rightarrow> r)
     = ''Makefile''"
    by code_simp
  have sh: "Sum256hex plainWorld (''hello'' @ [NL]) = ''sha256-of-6-bytes''" by code_simp
  have col: "Collect plainWorld ''/w'' plainConfig = Inr ?items" by code_simp
  note t = empty_ext_matches_every_file
    [of plainConfig "''/w/Makefile''" plainWorld "''/w''" ?tree ?items
        "SplitClean (Exclude plainConfig)" 6 "''hello'' @ [NL]" "''/w''" "[]"]
  from t e have h: "strings_HasSuffix ''/w/Makefile'' (Ext plainConfig)" by blast
  from t e ls col mem b i x have g: "\<exists>it\<in>set ?items. abs_path it = ''/w/Makefile''" by blast
  from t e b i x s r
  have "walkDir (collectFn plainWorld plainConfig (SplitClean (Exclude plainConfig)) ''/w'')
        ''/w/Makefile'' File []
       = (None, [] @ [\<lparr>rel = filepath_ToSlash (case Rel plainWorld ''/w'' ''/w/Makefile'' of Inl e \<Rightarrow> [] | Inr r \<Rightarrow> r),
                   abs_path = ''/w/Makefile'', sha = Sum256hex plainWorld (''hello'' @ [NL]),
                   size_bytes = 6\<rparr>])"
    by blast
  then have w: "walkDir (collectFn plainWorld plainConfig (SplitClean (Exclude plainConfig)) ''/w'')
        ''/w/Makefile'' File []
       = (None, [\<lparr>rel = ''Makefile'', abs_path = ''/w/Makefile'', sha = ''sha256-of-6-bytes'',
                   size_bytes = 6\<rparr>])"
    by (simp only: rl sh append_Nil)
  from e h ls wf b i x col g s r w show ?thesis by blast
qed

text \<open>
  Claim C5. An error of \<^verbatim>\<open>os.Stat\<close> or of \<^verbatim>\<open>os.ReadFile\<close> on a file that passes the filters,
  and an error of \<^verbatim>\<open>os.ReadDir\<close> on a directory that is not skipped, is returned by the walk
  at that entry, with the items collected so far. An error that the walk of an entry
  returns ends the loop over the entries of its directory and is returned by the walk of
  that directory; the entries behind it are not visited. An error of \<^verbatim>\<open>os.Lstat\<close> on the
  root, and an error that the walk of the root returns, is the result of \<^verbatim>\<open>Collect\<close>, which
  then returns no items. When \<^verbatim>\<open>Collect\<close> returns an error, and when \<^verbatim>\<open>Dump\<close> fails to read a
  collected file again, \<^verbatim>\<open>Dump\<close> returns that error and makes no call that writes.
\<close>

theorem filesystem_error_aborts_run:
  "(strings_HasSuffix path (Ext c) \<and> filepath_Base path \<noteq> Out c
      \<and> (Include c = [] \<or> strings_Contains (filepath_ToSlash path) (Include c))
      \<and> \<not> anyBad (filepath_ToSlash path) excl \<longrightarrow>
        (Stat w path = Inl e \<longrightarrow>
           walkDir (collectFn w c excl wd) path File out = (Some (Err e), out))
        \<and> (Stat w path = Inr st \<and> ReadFile w path = Inl e \<longrightarrow>
           walkDir (collectFn w c excl wd) path File out = (Some (Err e), out)))
   \<and> (\<not> anyBad (filepath_ToSlash path) excl \<longrightarrow>
        walkDir (collectFn w c excl wd) path (Dir dirs (Some e)) out = (Some (Err e), out)
        \<and> (walkEntries (collectFn w c excl wd) path dirs out = (Some (Err e), out') \<longrightarrow>
             walkDir (collectFn w c excl wd) path (Dir dirs None) out = (Some (Err e), out')))
   \<and> (walkEntries (collectFn w c excl wd) path before out = (None, out1)
       \<and> walkDir (collectFn w c excl wd) (filepath_Join path name) n out1 = (Some (Err e), out2) \<longrightarrow>
         walkEntries (collectFn w c excl wd) path (before @ (name, n) # rest) out
           = (Some (Err e), out2))
   \<and> (Lstat w targetAbs = Inl e \<longrightarrow> Collect w targetAbs c = Inl e)
   \<and> (Lstat w targetAbs = Inr n
       \<and> walkDir (collectFn w c (SplitClean (Exclude c)) (getwd w)) targetAbs n []
           = (Some (Err e), out') \<longrightarrow>
         Collect w targetAbs c = Inl e)
   \<and> (Collect w (AbsFrom w (getwd w) (Target c)) c = Inl e \<longrightarrow> Dump w c = (Inl e, []))
   \<and> (Collect w (AbsFrom w (getwd w) (Target c)) c = Inr items
       \<and> dumpLoop w c items
            (dumpHeader w (getwd w) (AbsFrom w (getwd w) (Root c)) (AbsFrom w (getwd w) (Target c))
               (AbsFrom w (AbsFrom w (getwd w) (Root c)) (Out c))) = Inl e \<longrightarrow>
         Dump w c = (Inl e, []))"
proof (intro conjI impI)
  assume "walkEntries (collectFn w c excl wd) path before out = (None, out1)
       \<and> walkDir (collectFn w c excl wd) (filepath_Join path name) n out1 = (Some (Err e), out2)"
  then show "walkEntries (collectFn w c excl wd) path (before @ (name, n) # rest) out
           = (Some (Err e), out2)"
    using walkEntries_collect_append [of w c excl wd path before out out1 "(name, n) # rest"]
    by simp
next
  assume "Lstat w targetAbs = Inl e"
  then show "Collect w targetAbs c = Inl e" by (rule Collect_Lstat_error)
next
  assume "Lstat w targetAbs = Inr n
       \<and> walkDir (collectFn w c (SplitClean (Exclude c)) (getwd w)) targetAbs n []
           = (Some (Err e), out')"
  then show "Collect w targetAbs c = Inl e" using Collect_walk_error by blast
qed (simp_all add: collectFn_def Dump_def Let_def)

text \<open>The theorem at a tree whose second file cannot be read, at a file that \<^verbatim>\<open>os.Stat\<close>
  refuses, at a root that cannot be listed, at a root that does not exist, and at a tree
  whose files are gone when \<^verbatim>\<open>Dump\<close> reads them.\<close>

theorem filesystem_error_aborts_run_witness:
  "strings_HasSuffix ''/w/b.go'' (Ext orderConfig) \<and> filepath_Base ''/w/b.go'' \<noteq> Out orderConfig
   \<and> Include orderConfig = []
   \<and> \<not> anyBad (filepath_ToSlash ''/w/b.go'') (SplitClean (Exclude orderConfig))
   \<and> \<not> anyBad (filepath_ToSlash ''/w'') (SplitClean (Exclude orderConfig))
   \<and> Stat brokenWorld ''/w/b.go'' = Inr 20
   \<and> ReadFile brokenWorld ''/w/b.go'' = Inl (Error ''open /w/b.go: permission denied'')
   \<and> walkEntries (collectFn brokenWorld orderConfig (SplitClean (Exclude orderConfig)) ''/w'')
        ''/w'' [(''a.go'', File)] []
       = (None, [\<lparr>rel = ''a.go'', abs_path = ''/w/a.go'', sha = ''sha256-of-20-bytes'',
                   size_bytes = 20\<rparr>])
   \<and> walkEntries (collectFn brokenWorld orderConfig (SplitClean (Exclude orderConfig)) ''/w'')
        ''/w'' ([(''a.go'', File)] @ (''b.go'', File) # [(''c.go'', File)]) []
       = (Some (Err (Error ''open /w/b.go: permission denied'')),
          [\<lparr>rel = ''a.go'', abs_path = ''/w/a.go'', sha = ''sha256-of-20-bytes'',
             size_bytes = 20\<rparr>])
   \<and> Collect brokenWorld ''/w'' orderConfig = Inl (Error ''open /w/b.go: permission denied'')
   \<and> Dump brokenWorld orderConfig = (Inl (Error ''open /w/b.go: permission denied''), [])
   \<and> Stat statWorld ''/w/a.go'' = Inl (Error ''stat /w/a.go: permission denied'')
   \<and> walkDir (collectFn statWorld orderConfig (SplitClean (Exclude orderConfig)) ''/w'')
        ''/w/a.go'' File []
       = (Some (Err (Error ''stat /w/a.go: permission denied'')), [])
   \<and> walkDir (collectFn unlistedWorld orderConfig (SplitClean (Exclude orderConfig)) ''/w'')
        ''/w'' (Dir [] (Some (Error ''open /w: permission denied''))) []
       = (Some (Err (Error ''open /w: permission denied'')), [])
   \<and> Lstat orderWorld ''/nowhere'' = Inl (Error ''lstat: no such file or directory'')
   \<and> Collect orderWorld ''/nowhere'' orderConfig = Inl (Error ''lstat: no such file or directory'')
   \<and> Dump vanishedWorld orderConfig = (Inl (Error ''open: no such file or directory''), [])"
proof -
  let ?excl = "SplitClean (Exclude orderConfig)"
  let ?E = "Error ''open /w/b.go: permission denied''"
  let ?a = "\<lparr>rel = ''a.go'', abs_path = ''/w/a.go'', sha = ''sha256-of-20-bytes'', size_bytes = 20\<rparr>"
  let ?tree = "Dir ([(''a.go'', File)] @ (''b.go'', File) # [(''c.go'', File)]) None"
  have h1: "strings_HasSuffix ''/w/b.go'' (Ext orderConfig)" by code_simp
  have h2: "filepath_Base ''/w/b.go'' \<noteq> Out orderConfig" by code_simp
  have h3: "Include orderConfig = []" by code_simp
  have h4: "\<not> anyBad (filepath_ToSlash ''/w/b.go'') ?excl" by code_simp
  have h5: "\<not> anyBad (filepath_ToSlash ''/w'') ?excl" by code_simp
  have h6: "Stat brokenWorld ''/w/b.go'' = Inr 20" by code_simp
  have h7: "ReadFile brokenWorld ''/w/b.go'' = Inl ?E" by code_simp
  have j: "filepath_Join ''/w'' ''b.go'' = ''/w/b.go''" by code_simp
  have pre: "walkEntries (collectFn brokenWorld orderConfig ?excl ''/w'') ''/w'' [(''a.go'', File)] []
       = (None, [?a])"
    by code_simp
  have wd: "getwd brokenWorld = ''/w''" by code_simp
  have tg: "AbsFrom brokenWorld ''/w'' (Target orderConfig) = ''/w''" by code_simp
  have ls: "Lstat brokenWorld ''/w'' = Inr ?tree" by code_simp
  note t = filesystem_error_aborts_run
    [of "''/w/b.go''" orderConfig ?excl brokenWorld ?E "''/w''" "[?a]" 20]
  from t h1 h2 h3 h4 h6 h7
  have rd: "walkDir (collectFn brokenWorld orderConfig ?excl ''/w'') ''/w/b.go'' File [?a]
      = (Some (Err ?E), [?a])"
    by blast
  note u = filesystem_error_aborts_run
    [of _ orderConfig ?excl brokenWorld ?E "''/w''" "[]" _
        "[(''a.go'', File)] @ (''b.go'', File) # [(''c.go'', File)]" "[?a]"
        "[(''a.go'', File)]" "[?a]" "''b.go''" File "[?a]" "[(''c.go'', File)]" "''/w''"]
  from u [of "''/w''"] pre rd j
  have ents: "walkEntries (collectFn brokenWorld orderConfig ?excl ''/w'') ''/w''
        ([(''a.go'', File)] @ (''b.go'', File) # [(''c.go'', File)]) []
      = (Some (Err ?E), [?a])"
    by simp
  from u [of "''/w''"] h5 ents
  have root: "walkDir (collectFn brokenWorld orderConfig ?excl ''/w'') ''/w'' ?tree []
      = (Some (Err ?E), [?a])"
    by blast
  from filesystem_error_aborts_run
    [of _ orderConfig _ brokenWorld ?E _ _ _ _ "[?a]" _ _ _ ?tree _ _ "''/w''"] ls root wd
  have col: "Collect brokenWorld ''/w'' orderConfig = Inl ?E"
    by simp
  from filesystem_error_aborts_run [of _ orderConfig _ brokenWorld ?E] col wd tg
  have dmp: "Dump brokenWorld orderConfig = (Inl ?E, [])"
    by simp
  have s1: "strings_HasSuffix ''/w/a.go'' (Ext orderConfig)" by code_simp
  have s2: "filepath_Base ''/w/a.go'' \<noteq> Out orderConfig" by code_simp
  have s4: "\<not> anyBad (filepath_ToSlash ''/w/a.go'') ?excl" by code_simp
  have s5: "Stat statWorld ''/w/a.go'' = Inl (Error ''stat /w/a.go: permission denied'')"
    by code_simp
  from filesystem_error_aborts_run
    [of "''/w/a.go''" orderConfig ?excl statWorld "Error ''stat /w/a.go: permission denied''"
        "''/w''" "[]"] s1 s2 h3 s4 s5
  have st: "walkDir (collectFn statWorld orderConfig ?excl ''/w'') ''/w/a.go'' File []
       = (Some (Err (Error ''stat /w/a.go: permission denied'')), [])"
    by blast
  from filesystem_error_aborts_run
    [of "''/w''" orderConfig ?excl unlistedWorld "Error ''open /w: permission denied''"
        "''/w''" "[]" _ "[]"] h5
  have rdir: "walkDir (collectFn unlistedWorld orderConfig ?excl ''/w'') ''/w''
        (Dir [] (Some (Error ''open /w: permission denied''))) []
       = (Some (Err (Error ''open /w: permission denied'')), [])"
    by blast
  have l0: "Lstat orderWorld ''/nowhere'' = Inl (Error ''lstat: no such file or directory'')"
    by code_simp
  from filesystem_error_aborts_run
    [of _ orderConfig _ orderWorld "Error ''lstat: no such file or directory''" _ _ _ _ _ _ _ _ _ _ _
        "''/nowhere''"] l0
  have lst: "Collect orderWorld ''/nowhere'' orderConfig = Inl (Error ''lstat: no such file or directory'')"
    by blast
  let ?items = "[\<lparr>rel = ''a/a.go'', abs_path = ''/w/a/a.go'', sha = ''sha256-of-20-bytes'', size_bytes = 20\<rparr>,
     \<lparr>rel = ''a/b.go'', abs_path = ''/w/a/b.go'', sha = ''sha256-of-20-bytes'', size_bytes = 20\<rparr>,
     \<lparr>rel = ''z.go'', abs_path = ''/w/z.go'', sha = ''sha256-of-20-bytes'', size_bytes = 20\<rparr>]"
  have v1: "getwd vanishedWorld = ''/w''" by code_simp
  have v2: "AbsFrom vanishedWorld ''/w'' (Target orderConfig) = ''/w''" by code_simp
  have v3: "Collect vanishedWorld ''/w'' orderConfig = Inr ?items" by code_simp
  have v4: "\<And>buf. dumpLoop vanishedWorld orderConfig ?items buf
      = Inl (Error ''open: no such file or directory'')"
    by (simp add: vanishedWorld_def)
  from filesystem_error_aborts_run
    [of _ orderConfig _ vanishedWorld "Error ''open: no such file or directory''" _ _ _ _ _ _ _ _ _ _ _ _
        ?items] v1 v2 v3 v4
  have van: "Dump vanishedWorld orderConfig = (Inl (Error ''open: no such file or directory''), [])"
    by simp
  from h1 h2 h3 h4 h5 h6 h7 pre ents col dmp s5 st rdir l0 lst van
  show ?thesis by blast
qed

end
